theory Spec2Isabelle
  imports Complex_Main "HOL-Library.Code_Target_Numeral" "HOL-Library.Word" "HOL-Library.Multiset" "HOL-Library.Sublist"
begin

section \<open>JavaScript values used by the expense tracker\<close>

subsection \<open>Strings\<close>

text \<open>
  A JavaScript string is a sequence of 16-bit code units.  \<open>ascii\<close> writes the
  literals of the source.
\<close>

type_synonym jsstring = "16 word list"

definition ascii :: "string \<Rightarrow> jsstring" where
  "ascii s = map of_char s"

subsection \<open>Numbers\<close>

text \<open>
  A JavaScript number is \<open>NaN\<close>, one of the two infinities, or a finite value.
  Finite values are modelled by exact rationals: arithmetic on them is exact, so the
  rounding, overflow and underflow of IEEE-754 doubles are not part of this model, and
  \<open>-0\<close> is identified with \<open>0\<close>.
\<close>

datatype jsnum = NaN | NegInf | Fin rat | PosInf

fun js_add :: "jsnum \<Rightarrow> jsnum \<Rightarrow> jsnum" where
  "js_add NaN _ = NaN"
| "js_add _ NaN = NaN"
| "js_add PosInf NegInf = NaN"
| "js_add NegInf PosInf = NaN"
| "js_add PosInf _ = PosInf"
| "js_add _ PosInf = PosInf"
| "js_add NegInf _ = NegInf"
| "js_add _ NegInf = NegInf"
| "js_add (Fin a) (Fin b) = Fin (a + b)"

fun js_neg :: "jsnum \<Rightarrow> jsnum" where
  "js_neg NaN = NaN"
| "js_neg PosInf = NegInf"
| "js_neg NegInf = PosInf"
| "js_neg (Fin a) = Fin (- a)"

text \<open>The comparisons \<open><=\<close> and \<open><\<close>: false as soon as one side is \<open>NaN\<close>.\<close>

fun js_le :: "jsnum \<Rightarrow> jsnum \<Rightarrow> bool" where
  "js_le NaN _ = False"
| "js_le _ NaN = False"
| "js_le NegInf _ = True"
| "js_le _ PosInf = True"
| "js_le PosInf _ = False"
| "js_le _ NegInf = False"
| "js_le (Fin a) (Fin b) = (a \<le> b)"

instantiation jsnum :: comm_monoid_add
begin

definition zero_jsnum :: jsnum where
  "zero_jsnum = Fin 0"

definition plus_jsnum :: "jsnum \<Rightarrow> jsnum \<Rightarrow> jsnum" where
  "plus_jsnum = js_add"

instance
proof
  fix a b c :: jsnum
  show "a + b + c = a + (b + c)"
    unfolding plus_jsnum_def by (cases a; cases b; cases c) simp_all
  show "a + b = b + a"
    unfolding plus_jsnum_def by (cases a; cases b) simp_all
  show "0 + a = a"
    unfolding plus_jsnum_def zero_jsnum_def by (cases a) simp_all
qed

end

section \<open>The data model (\<open>ExpenseTracker\<close>, type declarations)\<close>

datatype TxType = Income | Expense

record Transaction =
  id' :: jsstring
  description :: jsstring
  amount :: jsnum
  category :: jsstring
  type :: TxType
  date :: jsstring

section \<open>Derived values and list operations\<close>

text \<open>
  \<^verbatim>\<open>transactions.reduce((acc, t) => acc + (t.type === "Income" ? t.amount : -t.amount), 0)\<close>
\<close>

definition balance :: "Transaction list \<Rightarrow> jsnum" where
  "balance txs =
     foldl (\<lambda>acc t. js_add acc (if type t = Income then amount t else js_neg (amount t)))
       (Fin 0) txs"


text \<open>\<^verbatim>\<open>setTransactions((s) => s.filter((t) => t.id !== id))\<close>\<close>

definition deleteTx :: "jsstring \<Rightarrow> Transaction list \<Rightarrow> Transaction list" where
  "deleteTx i s = filter (\<lambda>t. id' t \<noteq> i) s"

section \<open>Library functions of the language\<close>

subsection \<open>\<open>String.prototype.trim\<close>\<close>

text \<open>The code units that \<open>trim\<close> and \<open>parseFloat\<close> strip: the white space and line
  terminator characters of the language (all of them in the basic plane).\<close>

definition str_ws :: "16 word \<Rightarrow> bool" where
  "str_ws c \<longleftrightarrow>
     c \<in> {0x9, 0xA, 0xB, 0xC, 0xD, 0x20, 0xA0, 0x1680, 0x2028, 0x2029, 0x202F, 0x205F,
       0x3000, 0xFEFF}
     \<or> (0x2000 \<le> c \<and> c \<le> 0x200A)"

definition trim :: "jsstring \<Rightarrow> jsstring" where
  "trim s = rev (dropWhile str_ws (rev (dropWhile str_ws s)))"

subsection \<open>Decimal digits\<close>

definition is_digit :: "16 word \<Rightarrow> bool" where
  "is_digit c \<longleftrightarrow> 0x30 \<le> c \<and> c \<le> 0x39"

definition digit_val :: "16 word \<Rightarrow> nat" where
  "digit_val c = unat c - 48"

definition digits_value :: "jsstring \<Rightarrow> nat" where
  "digits_value ds = foldl (\<lambda>a c. 10 * a + digit_val c) 0 ds"

fun nat_digits :: "nat \<Rightarrow> jsstring" where
  "nat_digits n =
     (if n < 10 then [of_nat n + 0x30] else nat_digits (n div 10) @ [of_nat (n mod 10) + 0x30])"

declare nat_digits.simps [simp del]

definition pow10 :: "int \<Rightarrow> rat" where
  "pow10 e = (if 0 \<le> e then 10 ^ nat e else 1 / 10 ^ nat (- e))"

subsection \<open>\<open>parseFloat\<close>\<close>

text \<open>
  \<open>parseFloat\<close> skips leading white space and reads the longest prefix that is a
  decimal literal: an optional sign, then \<open>Infinity\<close>, or digits with an optional
  fraction and an optional exponent (an exponent counts only when it has a digit).
  What follows the literal is ignored; when there is no literal the result is \<open>NaN\<close>.
\<close>

definition signed_integer :: "jsstring \<Rightarrow> int" where
  "signed_integer r =
     (case r of
        [] \<Rightarrow> 0
      | c # r' \<Rightarrow>
          if c = 0x2B then int (digits_value (takeWhile is_digit r'))
          else if c = 0x2D then - int (digits_value (takeWhile is_digit r'))
          else int (digits_value (takeWhile is_digit r)))"

definition exponent_part :: "jsstring \<Rightarrow> int" where
  "exponent_part r =
     (case r of
        [] \<Rightarrow> 0
      | c # r' \<Rightarrow> if c = 0x65 \<or> c = 0x45 then signed_integer r' else 0)"

definition unsigned_decimal :: "jsstring \<Rightarrow> jsnum" where
  "unsigned_decimal u =
     (if take 8 u = ascii ''Infinity'' then PosInf
      else
        let ip = takeWhile is_digit u;
            r1 = dropWhile is_digit u;
            dot = (r1 \<noteq> [] \<and> hd r1 = 0x2E);
            fp = (if dot then takeWhile is_digit (tl r1) else []);
            r2 = (if dot then dropWhile is_digit (tl r1) else r1)
        in if ip = [] \<and> fp = [] then NaN
           else Fin (of_nat (digits_value (ip @ fp)) * pow10 (exponent_part r2 - int (length fp))))"

definition parseFloat :: "jsstring \<Rightarrow> jsnum" where
  "parseFloat s =
     (case dropWhile str_ws s of
        [] \<Rightarrow> NaN
      | c # r \<Rightarrow>
          if c = 0x2D then js_neg (unsigned_decimal r)
          else if c = 0x2B then unsigned_decimal r
          else unsigned_decimal (c # r))"

subsection \<open>\<open>Number.prototype.toString\<close>\<close>

text \<open>
  The decimal rendering of a number: for a finite value \<open>x > 0\<close> the digits \<open>s\<close> (the
  fewest possible, so \<open>s\<close> does not end in \<open>0\<close>) and the exponent \<open>e\<close> with
  \<open>x = s * 10^e\<close>, laid out in positional notation when the decimal point falls between
  \<open>10^-7\<close> and \<open>10^21\<close> and in exponential notation otherwise.
\<close>

fun multiplicity_of :: "nat \<Rightarrow> nat \<Rightarrow> nat" where
  "multiplicity_of p b =
     (if 1 < p \<and> 0 < b \<and> b mod p = 0 then Suc (multiplicity_of p (b div p)) else 0)"

declare multiplicity_of.simps [simp del]

fun strip_zeros :: "nat \<Rightarrow> int \<Rightarrow> nat \<times> int" where
  "strip_zeros s e =
     (if s \<noteq> 0 \<and> s mod 10 = 0 then strip_zeros (s div 10) (e + 1) else (s, e))"

declare strip_zeros.simps [simp del]

definition decimal_of :: "rat \<Rightarrow> nat \<times> int" where
  "decimal_of q =
     (let (a, b) = quotient_of q;
          m = max (multiplicity_of 2 (nat b)) (multiplicity_of 5 (nat b))
      in strip_zeros (nat (a * 10 ^ m div b)) (- int m))"

definition toString_pos :: "rat \<Rightarrow> jsstring" where
  "toString_pos q =
     (let (s, e) = decimal_of q;
          ds = nat_digits s;
          k = int (length ds);
          n = e + k
      in if - 6 < n \<and> n \<le> 21 then
           (if k \<le> n then ds @ replicate (nat (n - k)) 0x30
            else if 0 < n then take (nat n) ds @ [0x2E] @ drop (nat n) ds
            else [0x30, 0x2E] @ replicate (nat (- n)) 0x30 @ ds)
         else
           (let ex = (if n - 1 < 0 then [0x2D] else [0x2B]) @ nat_digits (nat \<bar>n - 1\<bar>)
            in if k = 1 then ds @ [0x65] @ ex
               else [hd ds, 0x2E] @ tl ds @ [0x65] @ ex))"

definition Number_toString :: "jsnum \<Rightarrow> jsstring" where
  "Number_toString x =
     (case x of
        NaN \<Rightarrow> ascii ''NaN''
      | PosInf \<Rightarrow> ascii ''Infinity''
      | NegInf \<Rightarrow> ascii ''-Infinity''
      | Fin q \<Rightarrow>
          if q = 0 then ascii ''0''
          else if q < 0 then 0x2D # toString_pos (- q)
          else toString_pos q)"
subsection \<open>Multiplication, subtraction and \<open>toFixed\<close>\<close>

fun js_mul :: "jsnum \<Rightarrow> jsnum \<Rightarrow> jsnum" where
  "js_mul NaN _ = NaN"
| "js_mul _ NaN = NaN"
| "js_mul (Fin a) (Fin b) = Fin (a * b)"
| "js_mul (Fin a) PosInf = (if a = 0 then NaN else if 0 < a then PosInf else NegInf)"
| "js_mul (Fin a) NegInf = (if a = 0 then NaN else if 0 < a then NegInf else PosInf)"
| "js_mul PosInf (Fin b) = (if b = 0 then NaN else if 0 < b then PosInf else NegInf)"
| "js_mul NegInf (Fin b) = (if b = 0 then NaN else if 0 < b then NegInf else PosInf)"
| "js_mul PosInf PosInf = PosInf"
| "js_mul NegInf NegInf = PosInf"
| "js_mul PosInf NegInf = NegInf"
| "js_mul NegInf PosInf = NegInf"

definition js_sub :: "jsnum \<Rightarrow> jsnum \<Rightarrow> jsnum" where
  "js_sub a b = js_add a (js_neg b)"

text \<open>
  \<^verbatim>\<open>Number(x.toFixed(2))\<close>: \<open>toFixed(2)\<close> writes the multiple of \<open>1/100\<close> nearest to
  \<open>x\<close>, a tie going away from zero, and \<open>Number\<close> reads it back.  From \<open>10^21\<close> on, and
  for \<open>NaN\<close> and the infinities, \<open>toFixed\<close> writes the number as \<open>toString\<close> does, and
  the number read back is \<open>x\<close>.
\<close>

definition Number_toFixed2 :: "jsnum \<Rightarrow> jsnum" where
  "Number_toFixed2 x =
     (case x of
        Fin q \<Rightarrow>
          if 10 ^ 21 \<le> \<bar>q\<bar> then Fin q
          else Fin (sgn q * of_int \<lfloor>\<bar>q\<bar> * 100 + 1 / 2\<rfloor> / 100)
      | _ \<Rightarrow> x)"

section \<open>The component \<open>ExpenseTracker\<close>\<close>

subsection \<open>State\<close>

text \<open>
  One run of the balance effect: the values \<open>from\<close>, \<open>to\<close> and \<open>start\<close> that its frame
  callback \<open>step\<close> closes over.
\<close>

record run =
  from' :: jsnum
  to' :: jsnum
  start :: rat

text \<open>
  The state of the component: the \<open>useState\<close> values, the ref, and the frame callback that
  is requested and not yet run or cancelled (\<open>raf\<close>).  There is at most one: the effect
  requests one, a callback that has not reached the end requests the next, and the
  cleanup of the effect cancels the one requested last.  The form's state variables
  carry a prime where their name is a field of \<open>Transaction\<close>.
\<close>

record State =
  transactions :: "Transaction list"
  description' :: jsstring
  amountStr :: jsstring
  category' :: jsstring
  type' :: TxType
  date' :: jsstring
  displayBalance :: jsnum
  prevBalanceRef :: jsnum
  raf :: "run option"

subsection \<open>The count-up animation of the balance\<close>

text \<open>The body of the effect with dependency \<open>[balance]\<close>; \<open>now\<close> is
  \<open>performance.now()\<close>.\<close>

definition balance_effect :: "jsnum \<Rightarrow> rat \<Rightarrow> State \<Rightarrow> State" where
  "balance_effect b now st =
     st\<lparr>raf := Some \<lparr>from' = prevBalanceRef st, to' = b, start = now\<rparr>\<rparr>"

text \<open>Its cleanup: \<^verbatim>\<open>cancelAnimationFrame(raf)\<close>.\<close>

definition balance_effect_cleanup :: "State \<Rightarrow> State" where
  "balance_effect_cleanup st = st\<lparr>raf := None\<rparr>"

text \<open>An animation frame at time \<open>now\<close>: the requested callback \<open>step\<close>, if any, runs.\<close>

definition step :: "rat \<Rightarrow> State \<Rightarrow> State" where
  "step now st =
     (case raf st of
        None \<Rightarrow> st
      | Some r \<Rightarrow>
          let t = min 1 ((now - start r) / 550);
              eased = 1 - (1 - t) ^ 3;
              current = js_add (from' r) (js_mul (js_sub (to' r) (from' r)) (Fin eased));
              st' = st\<lparr>displayBalance := Number_toFixed2 current\<rparr>
          in if t < 1 then st' else st'\<lparr>prevBalanceRef := to' r, raf := None\<rparr>)"

text \<open>
  A render after the record list has changed: when the balance differs from the one of
  the previous render, the effect is cleaned up and runs again.
\<close>

definition rerender :: "jsnum \<Rightarrow> rat \<Rightarrow> State \<Rightarrow> State" where
  "rerender old_balance now st =
     (if balance (transactions st) = old_balance then st
      else balance_effect (balance (transactions st)) now (balance_effect_cleanup st))"

text \<open>
  The first render and its effects, for the record list read from the storage; \<open>today\<close>
  is \<^verbatim>\<open>new Date().toISOString().slice(0, 10)\<close>.
\<close>

definition mount :: "Transaction list \<Rightarrow> jsstring \<Rightarrow> rat \<Rightarrow> State" where
  "mount loaded today now =
     balance_effect (balance loaded) now
       \<lparr>transactions = loaded, description' = [], amountStr = [],
        category' = ascii ''Other'', type' = Expense, date' = today,
        displayBalance = Fin 0, prevBalanceRef = Fin 0, raf = None\<rparr>"

subsection \<open>Adding a record\<close>

definition alert_message :: jsstring where
  "alert_message = ascii ''Please add a valid description and positive amount.''"

text \<open>
  \<open>addTransaction\<close>; \<open>date_now\<close> is \<open>Date.now()\<close>.  The result is the message of the
  alert, if one is raised, and the state after the call.
\<close>

definition addTransaction :: "int \<Rightarrow> jsstring \<Rightarrow> State \<Rightarrow> jsstring option \<times> State" where
  "addTransaction date_now today st =
     (let amount = parseFloat (amountStr st)
      in if trim (description' st) = [] \<or> amount = NaN \<or> js_le amount (Fin 0)
         then (Some alert_message, st)
         else
           let newTx = \<lparr>id' = Number_toString (Fin (of_int date_now)),
                 description = trim (description' st),
                 amount = amount,
                 category = (if category' st = [] then ascii ''Other'' else category' st),
                 type = type' st,
                 date = date' st\<rparr>
           in (None, st\<lparr>transactions := newTx # transactions st, description' := [],
                 amountStr := [], category' := ascii ''Other'', type' := Expense,
                 date' := today\<rparr>))"

subsection \<open>Spend by category\<close>











text \<open>
  \<open>Object.keys\<close>: the own property names that are array indices (canonical numerals
  below \<open>2^32 - 1\<close>) in ascending numeric order, then the other names in the order of
  their creation.
\<close>

definition is_array_index :: "jsstring \<Rightarrow> bool" where
  "is_array_index k \<longleftrightarrow>
     k \<noteq> [] \<and> list_all is_digit k \<and> (hd k \<noteq> 0x30 \<or> length k = 1) \<and>
     digits_value k < 2 ^ 32 - 1"




subsection \<open>The user's actions\<close>

text \<open>
  A click on \<open>Add\<close> and a click on the delete button of a row, each followed by the
  render it causes; \<open>now\<close> is \<open>performance.now()\<close> at that render.
\<close>

definition click_add :: "int \<Rightarrow> jsstring \<Rightarrow> rat \<Rightarrow> State \<Rightarrow> State" where
  "click_add date_now today now st =
     rerender (balance (transactions st)) now (snd (addTransaction date_now today st))"


text \<open>Typing into the description and amount fields, choosing a type.\<close>

definition fill_form :: "jsstring \<Rightarrow> jsstring \<Rightarrow> TxType \<Rightarrow> State \<Rightarrow> State" where
  "fill_form d a ty st = st\<lparr>description' := d, amountStr := a, type' := ty\<rparr>"

section \<open>Vocabulary of the specification\<close>

definition blank :: "jsstring \<Rightarrow> bool" where
  "blank s = list_all str_ws s"

definition positive_finite :: "jsnum \<Rightarrow> bool" where
  "positive_finite x = (case x of Fin q \<Rightarrow> 0 < q | _ \<Rightarrow> False)"

definition js_positive :: "jsnum \<Rightarrow> bool" where
  "js_positive x = (case x of Fin q \<Rightarrow> 0 < q | PosInf \<Rightarrow> True | _ \<Rightarrow> False)"

definition is_finite :: "jsnum \<Rightarrow> bool" where
  "is_finite x = (case x of Fin q \<Rightarrow> True | _ \<Rightarrow> False)"

text \<open>The elements of a list in the order of their first occurrence.\<close>

definition first_seen :: "'a list \<Rightarrow> 'a list" where
  "first_seen xs = foldl (\<lambda>acc x. if x \<in> set acc then acc else acc @ [x]) [] xs"



section \<open>JSON and the storage\<close>

subsection \<open>Values\<close>

text \<open>
  The values that \<open>JSON.parse\<close> returns and \<open>JSON.stringify\<close> writes.  The members of an
  object are kept in the order in which its own property names are enumerated.
\<close>

datatype json =
    JNull
  | JBool bool
  | JNumber jsnum
  | JString jsstring
  | JArray "json list"
  | JObject "(jsstring \<times> json) list"

subsection \<open>\<open>JSON.stringify\<close>\<close>

definition hex_digit :: "nat \<Rightarrow> 16 word" where
  "hex_digit n = (if n < 10 then of_nat (48 + n) else of_nat (87 + n))"

definition hex4 :: "16 word \<Rightarrow> jsstring" where
  "hex4 c =
     [hex_digit (unat c div 4096), hex_digit (unat c div 256 mod 16),
      hex_digit (unat c div 16 mod 16), hex_digit (unat c mod 16)]"

definition is_high_surrogate :: "16 word \<Rightarrow> bool" where
  "is_high_surrogate c \<longleftrightarrow> 0xD800 \<le> c \<and> c \<le> 0xDBFF"

definition is_low_surrogate :: "16 word \<Rightarrow> bool" where
  "is_low_surrogate c \<longleftrightarrow> 0xDC00 \<le> c \<and> c \<le> 0xDFFF"

text \<open>
  One code unit inside a quoted string: the short escapes, \<open>\uXXXX\<close> for the other
  control characters and for a surrogate that is not part of a pair, the unit itself
  otherwise.
\<close>

definition escape_unit :: "16 word \<Rightarrow> jsstring" where
  "escape_unit c =
     (if c = 0x08 then [0x5C, 0x62]
      else if c = 0x09 then [0x5C, 0x74]
      else if c = 0x0A then [0x5C, 0x6E]
      else if c = 0x0C then [0x5C, 0x66]
      else if c = 0x0D then [0x5C, 0x72]
      else if c = 0x22 then [0x5C, 0x22]
      else if c = 0x5C then [0x5C, 0x5C]
      else if c < 0x20 \<or> is_high_surrogate c \<or> is_low_surrogate c then [0x5C, 0x75] @ hex4 c
      else [c])"

fun quote_body :: "jsstring \<Rightarrow> jsstring" where
  "quote_body [] = []"
| "quote_body [c] = escape_unit c"
| "quote_body (c # d # cs) =
     (if is_high_surrogate c \<and> is_low_surrogate d then c # d # quote_body cs
      else escape_unit c @ quote_body (d # cs))"

definition JSON_quote :: "jsstring \<Rightarrow> jsstring" where
  "JSON_quote s = 0x22 # quote_body s @ [0x22]"

fun join_comma :: "jsstring list \<Rightarrow> jsstring" where
  "join_comma [] = []"
| "join_comma [x] = x"
| "join_comma (x # y # ys) = x @ 0x2C # join_comma (y # ys)"

text \<open>A number that is not finite is written as \<open>null\<close>.\<close>

fun JSON_stringify :: "json \<Rightarrow> jsstring"
  and stringify_elements :: "json list \<Rightarrow> jsstring list"
  and stringify_members :: "(jsstring \<times> json) list \<Rightarrow> jsstring list" where
  "JSON_stringify JNull = ascii ''null''"
| "JSON_stringify (JBool b) = (if b then ascii ''true'' else ascii ''false'')"
| "JSON_stringify (JNumber x) = (if is_finite x then Number_toString x else ascii ''null'')"
| "JSON_stringify (JString s) = JSON_quote s"
| "JSON_stringify (JArray vs) = 0x5B # join_comma (stringify_elements vs) @ [0x5D]"
| "JSON_stringify (JObject ms) = 0x7B # join_comma (stringify_members ms) @ [0x7D]"
| "stringify_elements [] = []"
| "stringify_elements (v # vs) = JSON_stringify v # stringify_elements vs"
| "stringify_members [] = []"
| "stringify_members ((k, v) # ms) = (JSON_quote k @ 0x3A # JSON_stringify v) # stringify_members ms"

subsection \<open>\<open>JSON.parse\<close>: tokens\<close>

datatype token =
    LBrace | RBrace | LBracket | RBracket | Colon | Comma
  | TString jsstring | TNumber rat | TTrue | TFalse | TNull

definition hex_val :: "16 word \<Rightarrow> nat option" where
  "hex_val c =
     (if 0x30 \<le> c \<and> c \<le> 0x39 then Some (unat c - 48)
      else if 0x61 \<le> c \<and> c \<le> 0x66 then Some (unat c - 87)
      else if 0x41 \<le> c \<and> c \<le> 0x46 then Some (unat c - 55)
      else None)"

definition unhex4 :: "16 word \<Rightarrow> 16 word \<Rightarrow> 16 word \<Rightarrow> 16 word \<Rightarrow> 16 word option" where
  "unhex4 a b c d =
     (case (hex_val a, hex_val b, hex_val c, hex_val d) of
        (Some w, Some x, Some y, Some z) \<Rightarrow> Some (of_nat (4096 * w + 256 * x + 16 * y + z))
      | _ \<Rightarrow> None)"

definition unescape :: "16 word \<Rightarrow> 16 word option" where
  "unescape e =
     (if e = 0x22 \<or> e = 0x5C \<or> e = 0x2F then Some e
      else if e = 0x62 then Some 0x08
      else if e = 0x66 then Some 0x0C
      else if e = 0x6E then Some 0x0A
      else if e = 0x72 then Some 0x0D
      else if e = 0x74 then Some 0x09
      else None)"

definition cons_unit :: "16 word \<Rightarrow> (jsstring \<times> jsstring) option \<Rightarrow> (jsstring \<times> jsstring) option" where
  "cons_unit c r = (case r of None \<Rightarrow> None | Some (s, rest) \<Rightarrow> Some (c # s, rest))"

text \<open>The characters of a string up to its closing quote, and what follows the quote.\<close>

fun scan_string :: "jsstring \<Rightarrow> (jsstring \<times> jsstring) option" where
  "scan_string [] = None"
| "scan_string (c # cs) =
     (if c = 0x22 then Some ([], cs)
      else if c = 0x5C then
        (case cs of
           [] \<Rightarrow> None
         | e # r \<Rightarrow>
             if e = 0x75 then
               (case r of
                  h1 # h2 # h3 # h4 # r' \<Rightarrow>
                    (case unhex4 h1 h2 h3 h4 of
                       None \<Rightarrow> None
                     | Some u \<Rightarrow> cons_unit u (scan_string r'))
                | _ \<Rightarrow> None)
             else
               (case unescape e of
                  None \<Rightarrow> None
                | Some u \<Rightarrow> cons_unit u (scan_string r)))
      else if c < 0x20 then None
      else cons_unit c (scan_string cs))"

text \<open>
  A number: an optional minus sign, \<open>0\<close> or digits that do not start with \<open>0\<close>, an
  optional fraction with at least one digit, an optional exponent with at least one
  digit.  Each part is read from the head of the text and returns what follows it; the
  result is the value of the number and the rest of the text.
\<close>

definition scan_integer :: "jsstring \<Rightarrow> (jsstring \<times> jsstring) option" where
  "scan_integer r0 =
     (if r0 \<noteq> [] \<and> hd r0 = 0x30 then Some ([0x30], tl r0)
      else if takeWhile is_digit r0 = [] then None
      else Some (takeWhile is_digit r0, dropWhile is_digit r0))"

definition scan_fraction :: "jsstring \<Rightarrow> (jsstring \<times> jsstring) option" where
  "scan_fraction r1 =
     (if r1 \<noteq> [] \<and> hd r1 = 0x2E then
        (if takeWhile is_digit (tl r1) = [] then None
         else Some (takeWhile is_digit (tl r1), dropWhile is_digit (tl r1)))
      else Some ([], r1))"

definition scan_exponent :: "jsstring \<Rightarrow> (int \<times> jsstring) option" where
  "scan_exponent r2 =
     (if r2 \<noteq> [] \<and> (hd r2 = 0x65 \<or> hd r2 = 0x45) then
        (let r3 = tl r2;
             sg = (r3 \<noteq> [] \<and> (hd r3 = 0x2B \<or> hd r3 = 0x2D));
             r4 = (if sg then tl r3 else r3);
             ep = takeWhile is_digit r4
         in if ep = [] then None
            else Some (if sg \<and> hd r3 = 0x2D then - int (digits_value ep)
                       else int (digits_value ep),
                       dropWhile is_digit r4))
      else Some (0, r2))"

definition scan_unsigned :: "jsstring \<Rightarrow> (rat \<times> jsstring) option" where
  "scan_unsigned r0 =
     (case scan_integer r0 of
        None \<Rightarrow> None
      | Some (ip, r1) \<Rightarrow>
          (case scan_fraction r1 of
             None \<Rightarrow> None
           | Some (fp, r2) \<Rightarrow>
               (case scan_exponent r2 of
                  None \<Rightarrow> None
                | Some (e, r5) \<Rightarrow>
                    Some (of_nat (digits_value (ip @ fp)) * pow10 (e - int (length fp)), r5))))"

definition scan_number :: "jsstring \<Rightarrow> (rat \<times> jsstring) option" where
  "scan_number cs =
     (case cs of
        [] \<Rightarrow> None
      | c # r \<Rightarrow>
          if c = 0x2D then
            (case scan_unsigned r of None \<Rightarrow> None | Some (v, r') \<Rightarrow> Some (- v, r'))
          else scan_unsigned cs)"

definition cons_token :: "token \<Rightarrow> token list option \<Rightarrow> token list option" where
  "cons_token t r = map_option (Cons t) r"

lemma cons_unit_shorter:
  "cons_unit c x = Some (s, r) \<Longrightarrow> \<exists>s'. x = Some (s', r)"
  by (auto simp: cons_unit_def split: option.splits)

lemma scan_string_shorter: "scan_string cs = Some (s, r) \<Longrightarrow> length r < length cs"
proof (induction cs arbitrary: s rule: scan_string.induct)
  case 1
  then show ?case by simp
next
  case (2 c cs)
  show ?case
  proof (cases "c = 0x22")
    case True
    with "2.prems" show ?thesis by simp
  next
    case quote: False
    show ?thesis
    proof (cases "c = 0x5C")
      case False
      with quote "2.prems" obtain s' where "scan_string cs = Some (s', r)"
        by (auto split: if_splits dest: cons_unit_shorter)
      with "2.IH"(3) [OF quote False] quote False "2.prems" show ?thesis
        by (fastforce split: if_splits)
    next
      case True
      show ?thesis
      proof (cases cs)
        case Nil
        with True quote "2.prems" show ?thesis by simp
      next
        case (Cons e r0)
        show ?thesis
        proof (cases "e = 0x75")
          case False
          with True quote Cons "2.prems" obtain u s' where
            "unescape e = Some u" "scan_string r0 = Some (s', r)"
            by (auto split: option.splits dest: cons_unit_shorter)
          with "2.IH"(2) [OF quote True Cons False] Cons show ?thesis
            by fastforce
        next
          case u: True
          with True quote Cons "2.prems" obtain h1 h2 h3 h4 r' w s' where
            r0: "r0 = h1 # h2 # h3 # h4 # r'" and "unhex4 h1 h2 h3 h4 = Some w"
            and "scan_string r' = Some (s', r)"
            by (auto split: option.splits list.splits dest: cons_unit_shorter)
          with "2.IH"(1) [OF quote True Cons u] Cons show ?thesis
            by fastforce
        qed
      qed
    qed
  qed
qed

lemma scan_unsigned_shorter:
  assumes "scan_unsigned cs = Some (q, r)"
  shows "length r < length cs"
proof -
  from assms obtain ip r1 fp r2 e where
    i: "scan_integer cs = Some (ip, r1)" and f: "scan_fraction r1 = Some (fp, r2)"
    and x: "scan_exponent r2 = Some (e, r)"
    by (auto simp: scan_unsigned_def split: option.splits)
  have "length r1 < length cs"
  proof (cases "cs \<noteq> [] \<and> hd cs = 0x30")
    case True
    with i show ?thesis by (cases cs) (simp_all add: scan_integer_def)
  next
    case False
    with i have ne: "takeWhile is_digit cs \<noteq> []" and r1: "r1 = dropWhile is_digit cs"
      by (auto simp: scan_integer_def split: if_splits)
    have "length (takeWhile is_digit cs) + length (dropWhile is_digit cs) = length cs"
      by (metis length_append takeWhile_dropWhile_id)
    with ne show ?thesis by (cases "takeWhile is_digit cs") (simp_all add: r1)
  qed
  moreover have "length r2 \<le> length r1"
  proof -
    have "length (dropWhile is_digit (tl r1)) \<le> length (tl r1)"
      by (rule length_dropWhile_le)
    also have "\<dots> \<le> length r1" by simp
    finally show ?thesis using f by (auto simp: scan_fraction_def split: if_splits)
  qed
  moreover have "length r \<le> length r2"
  proof (cases "r2 \<noteq> [] \<and> (hd r2 = 0x65 \<or> hd r2 = 0x45)")
    case False
    with x show ?thesis by (auto simp: scan_exponent_def)
  next
    case True
    define r4 where "r4 = (if tl r2 \<noteq> [] \<and> (hd (tl r2) = 0x2B \<or> hd (tl r2) = 0x2D)
      then tl (tl r2) else tl r2)"
    from True x have "r = dropWhile is_digit r4"
      by (auto simp: scan_exponent_def Let_def r4_def split: if_splits)
    moreover have "length (dropWhile is_digit r4) \<le> length r4"
      by (rule length_dropWhile_le)
    moreover have "length r4 \<le> length r2" by (simp add: r4_def)
    ultimately show ?thesis by simp
  qed
  ultimately show ?thesis by simp
qed

lemma scan_number_shorter:
  assumes "scan_number cs = Some (q, r)"
  shows "length r < length cs"
proof (cases cs)
  case Nil
  with assms show ?thesis by (simp add: scan_number_def)
next
  case (Cons c r0)
  show ?thesis
  proof (cases "c = 0x2D")
    case True
    with assms Cons obtain v where "scan_unsigned r0 = Some (v, r)"
      by (auto simp: scan_number_def split: option.splits)
    then have "length r < length r0" by (rule scan_unsigned_shorter)
    with Cons show ?thesis by simp
  next
    case False
    with assms Cons have "scan_unsigned cs = Some (q, r)"
      by (simp add: scan_number_def)
    then show ?thesis by (rule scan_unsigned_shorter)
  qed
qed

text \<open>White space between tokens: tab, line feed, carriage return, space.\<close>

function lex :: "jsstring \<Rightarrow> token list option" where
  "lex [] = Some []"
| "lex (c # cs) =
     (if c = 0x09 \<or> c = 0x0A \<or> c = 0x0D \<or> c = 0x20 then lex cs
      else if c = 0x7B then cons_token LBrace (lex cs)
      else if c = 0x7D then cons_token RBrace (lex cs)
      else if c = 0x5B then cons_token LBracket (lex cs)
      else if c = 0x5D then cons_token RBracket (lex cs)
      else if c = 0x3A then cons_token Colon (lex cs)
      else if c = 0x2C then cons_token Comma (lex cs)
      else if c = 0x22 then
        (case scan_string cs of
           None \<Rightarrow> None
         | Some (s, r) \<Rightarrow> cons_token (TString s) (lex r))
      else if c = 0x74 then
        (if take 3 cs = ascii ''rue'' then cons_token TTrue (lex (drop 3 cs)) else None)
      else if c = 0x66 then
        (if take 4 cs = ascii ''alse'' then cons_token TFalse (lex (drop 4 cs)) else None)
      else if c = 0x6E then
        (if take 3 cs = ascii ''ull'' then cons_token TNull (lex (drop 3 cs)) else None)
      else
        (case scan_number (c # cs) of
           None \<Rightarrow> None
         | Some (q, r) \<Rightarrow> cons_token (TNumber q) (lex r)))"
  by pat_completeness auto
termination
  by (relation "measure length") (auto dest: scan_string_shorter scan_number_shorter)

declare lex.simps [simp del]
subsection \<open>\<open>JSON.parse\<close>: values\<close>

text \<open>
  The object made from the members of an object literal, in the order of the text: a
  name that occurs again replaces the value and keeps its place.  The own property
  names are then enumerated as \<open>Object.keys\<close> does.
\<close>

definition define_member :: "(jsstring \<times> json) list \<Rightarrow> jsstring \<times> json \<Rightarrow> (jsstring \<times> json) list" where
  "define_member obj m =
     (if fst m \<in> set (map fst obj)
      then map (\<lambda>(k', v'). if k' = fst m then (k', snd m) else (k', v')) obj
      else obj @ [m])"

definition own_order :: "(jsstring \<times> json) list \<Rightarrow> (jsstring \<times> json) list" where
  "own_order obj =
     sort_key (\<lambda>m. digits_value (fst m)) (filter (\<lambda>m. is_array_index (fst m)) obj) @
     filter (\<lambda>m. \<not> is_array_index (fst m)) obj"

definition object_of :: "(jsstring \<times> json) list \<Rightarrow> json" where
  "object_of ms = JObject (own_order (foldl define_member [] ms))"

text \<open>
  The value at the head of a token list, and the tokens after it.  The elements of an
  array and the members of an object are read up to the closing bracket; each of them
  takes at least one token.
\<close>

function (sequential) parse_value :: "token list \<Rightarrow> (json \<times> token list) option"
  and parse_elements :: "token list \<Rightarrow> (json list \<times> token list) option"
  and parse_members :: "token list \<Rightarrow> ((jsstring \<times> json) list \<times> token list) option" where
  "parse_value (TNull # ts) = Some (JNull, ts)"
| "parse_value (TTrue # ts) = Some (JBool True, ts)"
| "parse_value (TFalse # ts) = Some (JBool False, ts)"
| "parse_value (TNumber q # ts) = Some (JNumber (Fin q), ts)"
| "parse_value (TString s # ts) = Some (JString s, ts)"
| "parse_value (LBracket # RBracket # ts) = Some (JArray [], ts)"
| "parse_value (LBracket # ts) =
     (case parse_elements ts of None \<Rightarrow> None | Some (vs, r) \<Rightarrow> Some (JArray vs, r))"
| "parse_value (LBrace # RBrace # ts) = Some (JObject [], ts)"
| "parse_value (LBrace # ts) =
     (case parse_members ts of None \<Rightarrow> None | Some (ms, r) \<Rightarrow> Some (object_of ms, r))"
| "parse_value _ = None"
| "parse_elements ts =
     (case parse_value ts of
        None \<Rightarrow> None
      | Some (v, r) \<Rightarrow>
          if length r < length ts then
            (case r of
               Comma # r' \<Rightarrow>
                 (case parse_elements r' of None \<Rightarrow> None | Some (vs, r'') \<Rightarrow> Some (v # vs, r''))
             | RBracket # r' \<Rightarrow> Some ([v], r')
             | _ \<Rightarrow> None)
          else None)"
| "parse_members (TString k # Colon # ts) =
     (case parse_value ts of
        None \<Rightarrow> None
      | Some (v, r) \<Rightarrow>
          if length r < length ts then
            (case r of
               Comma # r' \<Rightarrow>
                 (case parse_members r' of
                    None \<Rightarrow> None
                  | Some (ms, r'') \<Rightarrow> Some ((k, v) # ms, r''))
             | RBrace # r' \<Rightarrow> Some ([(k, v)], r')
             | _ \<Rightarrow> None)
          else None)"
| "parse_members _ = None"
  by pat_completeness auto
termination
  by (relation "measure (\<lambda>x. case x of
        Inl ts \<Rightarrow> 2 * length ts
      | Inr (Inl ts) \<Rightarrow> 2 * length ts + 1
      | Inr (Inr ts) \<Rightarrow> 2 * length ts + 1)") auto

declare parse_elements.simps [simp del]

datatype exn = SyntaxError | SecurityError | QuotaExceededError

text \<open>\<open>JSON.parse\<close>: one value, with nothing but white space after it.\<close>

definition JSON_parse :: "jsstring \<Rightarrow> exn + json" where
  "JSON_parse s =
     (case lex s of
        None \<Rightarrow> Inl SyntaxError
      | Some ts \<Rightarrow>
          (case parse_value ts of
             Some (v, []) \<Rightarrow> Inr v
           | _ \<Rightarrow> Inl SyntaxError))"

subsection \<open>\<open>localStorage\<close>\<close>

text \<open>
  The storage holds strings under string keys.  Access to it can be denied (every call
  then throws a \<open>SecurityError\<close>), and a write that would take the stored keys and
  values beyond the quota throws a \<open>QuotaExceededError\<close>.
\<close>

record Storage =
  denied :: bool
  quota :: nat
  items :: "(jsstring \<times> jsstring) list"

definition getItem :: "jsstring \<Rightarrow> Storage \<Rightarrow> exn + jsstring option" where
  "getItem k st = (if denied st then Inl SecurityError else Inr (map_of (items st) k))"

definition setItem :: "jsstring \<Rightarrow> jsstring \<Rightarrow> Storage \<Rightarrow> exn + Storage" where
  "setItem k v st =
     (let items' = (k, v) # filter (\<lambda>m. fst m \<noteq> k) (items st)
      in if denied st then Inl SecurityError
         else if quota st < sum_list (map (\<lambda>m. length (fst m) + length (snd m)) items')
         then Inl QuotaExceededError
         else Inr (st\<lparr>items := items'\<rparr>))"

subsection \<open>Reading and writing the record list\<close>

definition STORAGE_KEY :: jsstring where
  "STORAGE_KEY = ascii ''aet_transactions_v1''"

text \<open>A record as the object that \<open>addTransaction\<close> builds.\<close>

definition type_name :: "TxType \<Rightarrow> jsstring" where
  "type_name ty = (case ty of Income \<Rightarrow> ascii ''Income'' | Expense \<Rightarrow> ascii ''Expense'')"

definition tx_json :: "Transaction \<Rightarrow> json" where
  "tx_json t = JObject
     [(ascii ''id'', JString (id' t)),
      (ascii ''description'', JString (description t)),
      (ascii ''amount'', JNumber (amount t)),
      (ascii ''category'', JString (category t)),
      (ascii ''type'', JString (type_name (type t))),
      (ascii ''date'', JString (date t))]"

text \<open>
  The initializer of the \<open>transactions\<close> state.  \<open>load_try\<close> is the body of its \<open>try\<close>
  block, \<open>load\<close> the whole of it: the \<open>catch\<close> turns every exception into the empty
  list.
\<close>

definition load_try :: "Storage \<Rightarrow> exn + json" where
  "load_try st =
     (case getItem STORAGE_KEY st of
        Inl e \<Rightarrow> Inl e
      | Inr None \<Rightarrow> Inr (JArray [])
      | Inr (Some raw) \<Rightarrow> if raw = [] then Inr (JArray []) else JSON_parse raw)"

definition load :: "Storage \<Rightarrow> exn + json" where
  "load st = (case load_try st of Inl e \<Rightarrow> Inr (JArray []) | Inr v \<Rightarrow> Inr v)"

text \<open>The persist effect: \<^verbatim>\<open>localStorage.setItem(STORAGE_KEY, JSON.stringify(transactions))\<close>.\<close>

definition save :: "Transaction list \<Rightarrow> Storage \<Rightarrow> exn + Storage" where
  "save txs st = setItem STORAGE_KEY (JSON_stringify (JArray (map tx_json txs))) st"

subsection \<open>Valid amounts, and the tokens of a record\<close>

text \<open>
  An amount that a valid record can carry: a positive finite number.  A double has a
  finite decimal expansion, so such a number is \<open>s * 10^e\<close> for a positive integer \<open>s\<close>.
\<close>

definition valid_amount :: "jsnum \<Rightarrow> bool" where
  "valid_amount x \<longleftrightarrow> (\<exists>s e. 0 < s \<and> x = Fin (of_nat s * pow10 e))"

text \<open>The tokens of the text that \<open>JSON.stringify\<close> writes for a record, and for the
  elements of an array.\<close>

definition finite_value :: "jsnum \<Rightarrow> rat" where
  "finite_value x = (case x of Fin q \<Rightarrow> q | _ \<Rightarrow> 0)"

definition tx_tokens :: "Transaction \<Rightarrow> token list" where
  "tx_tokens t =
     [LBrace, TString (ascii ''id''), Colon, TString (id' t), Comma,
      TString (ascii ''description''), Colon, TString (description t), Comma,
      TString (ascii ''amount''), Colon, TNumber (finite_value (amount t)), Comma,
      TString (ascii ''category''), Colon, TString (category t), Comma,
      TString (ascii ''type''), Colon, TString (type_name (type t)), Comma,
      TString (ascii ''date''), Colon, TString (date t), RBrace]"

fun join_tokens :: "token list list \<Rightarrow> token list" where
  "join_tokens [] = []"
| "join_tokens [x] = x"
| "join_tokens (x # y # ys) = x @ Comma # join_tokens (y # ys)"

definition is_array :: "json \<Rightarrow> bool" where
  "is_array v = (case v of JArray vs \<Rightarrow> True | _ \<Rightarrow> False)"

section \<open>Sample records\<close>

text \<open>The two records of the scenario in the specification, and a third one that shares
  its id with the first.\<close>

definition coffee :: Transaction where
  "coffee = \<lparr>id' = ascii ''1704067200000'', description = ascii ''Coffee'',
     amount = Fin (9 / 2), category = ascii ''Food'', type = Expense,
     date = ascii ''2024-01-01''\<rparr>"

definition paycheck :: Transaction where
  "paycheck = \<lparr>id' = ascii ''1704153600000'', description = ascii ''Paycheck'',
     amount = Fin 1000, category = ascii ''Other'', type = Income,
     date = ascii ''2024-01-02''\<rparr>"

definition tea :: Transaction where
  "tea = \<lparr>id' = ascii ''1704067200000'', description = ascii ''Tea'',
     amount = Fin 3, category = ascii ''Food'', type = Expense,
     date = ascii ''2024-01-01''\<rparr>"


definition today0 :: jsstring where
  "today0 = ascii ''2024-01-01''"




text \<open>Two clicks on \<open>Add\<close> within one millisecond.\<close>

definition one_added :: State where
  "one_added =
     click_add 1704067200000 today0 1000
       (fill_form (ascii ''Coffee'') (ascii ''4.50'') Expense (mount [] today0 0))"

definition two_added :: State where
  "two_added =
     click_add 1704067200000 today0 1000
       (fill_form (ascii ''Tea'') (ascii ''3'') Expense one_added)"





text \<open>Storages: an empty one, one that holds \<open>null\<close> under the key, one that holds a
  truncated document, one that cannot be accessed.\<close>

definition empty_storage :: Storage where
  "empty_storage = \<lparr>denied = False, quota = 5000000, items = []\<rparr>"

definition null_storage :: Storage where
  "null_storage = empty_storage\<lparr>items := [(STORAGE_KEY, ascii ''null'')]\<rparr>"

definition truncated_storage :: Storage where
  "truncated_storage = empty_storage\<lparr>items := [(STORAGE_KEY, ascii ''[{'')]\<rparr>"

definition denied_storage :: Storage where
  "denied_storage = empty_storage\<lparr>denied := True\<rparr>"

section \<open>Properties: balance\<close>






section \<open>Removing records\<close>

text \<open>
  C9.  Removing an id twice gives the same list as removing it once, and removing an id
  that no record carries returns the list as it is.  \<open>deleteTx\<close> is a total function
  of the list: no case of it raises.
\<close>

theorem deleteTx_idempotent:
  "deleteTx i (deleteTx i s) = deleteTx i s \<and>
   (i \<notin> set (map id' s) \<longrightarrow> deleteTx i s = s)"
proof
  show "deleteTx i (deleteTx i s) = deleteTx i s"
    by (simp add: deleteTx_def)
  show "i \<notin> set (map id' s) \<longrightarrow> deleteTx i s = s"
    by (induction s) (auto simp: deleteTx_def)
qed

theorem deleteTx_idempotent_witness:
  "ascii ''42'' \<notin> set (map id' [paycheck, coffee]) \<and>
   deleteTx (ascii ''42'') [paycheck, coffee] = [paycheck, coffee] \<and>
   deleteTx (id' coffee) (deleteTx (id' coffee) [paycheck, coffee]) =
     deleteTx (id' coffee) [paycheck, coffee]"
  using deleteTx_idempotent [of "ascii ''42''" "[paycheck, coffee]"]
    deleteTx_idempotent [of "id' coffee" "[paycheck, coffee]"]
  by (simp add: coffee_def paycheck_def ascii_def)

text \<open>
  C10.  After \<open>deleteTx i\<close> no record of the list has the id \<open>i\<close>, also when several
  records carried it; the result is a subsequence of the list (the order of the
  remaining records is kept), and every record with another id occurs in it as often
  as before.
\<close>

theorem deleteTx_removes_all:
  "i \<notin> set (map id' (deleteTx i s)) \<and> subseq (deleteTx i s) s \<and>
   (\<forall>t. id' t \<noteq> i \<longrightarrow> count_list (deleteTx i s) t = count_list s t)"
proof (intro conjI allI impI)
  show "i \<notin> set (map id' (deleteTx i s))"
    by (auto simp: deleteTx_def)
  show "subseq (deleteTx i s) s"
    by (simp add: deleteTx_def)
  show "count_list (deleteTx i s) t = count_list s t" if "id' t \<noteq> i" for t
    using that by (induction s) (auto simp: deleteTx_def)
qed

theorem deleteTx_removes_all_witness:
  "id' paycheck \<noteq> id' coffee \<and>
   deleteTx (id' coffee) [tea, paycheck, coffee] = [paycheck] \<and>
   id' coffee \<notin> set (map id' (deleteTx (id' coffee) [tea, paycheck, coffee])) \<and>
   count_list (deleteTx (id' coffee) [tea, paycheck, coffee]) paycheck =
     count_list [tea, paycheck, coffee] paycheck"
  using deleteTx_removes_all [of "id' coffee" "[tea, paycheck, coffee]"]
  by (simp add: deleteTx_def coffee_def paycheck_def tea_def ascii_def)

section \<open>Validation of the form\<close>

lemma trim_empty_iff: "trim s = [] \<longleftrightarrow> blank s"
proof
  assume "blank s"
  then have d: "dropWhile str_ws s = []"
    by (induction s) (auto simp: blank_def)
  show "trim s = []" unfolding trim_def d by simp
next
  assume a: "trim s = []"
  then have all: "\<forall>x\<in>set (dropWhile str_ws s). str_ws x"
    by (simp add: trim_def dropWhile_eq_Nil_conv)
  have "dropWhile str_ws s = []"
  proof (rule ccontr)
    assume ne: "dropWhile str_ws s \<noteq> []"
    then have "\<not> str_ws (hd (dropWhile str_ws s))" by (rule hd_dropWhile)
    moreover have "hd (dropWhile str_ws s) \<in> set (dropWhile str_ws s)" using ne by simp
    ultimately show False using all by blast
  qed
  then show "blank s" by (induction s) (auto simp: blank_def split: if_splits)
qed

lemma js_positive_iff: "js_positive x \<longleftrightarrow> \<not> (x = NaN \<or> js_le x (Fin 0))"
  by (cases x) (auto simp: js_positive_def)

text \<open>
  C3 (as amended).  \<open>addTransaction\<close> raises the alert and leaves the state as it is
  exactly when the description is empty or consists of white space only, or the parsed
  amount is not a positive number: \<open>NaN\<close> (nothing numeric to parse), zero, negative or
  \<open>-Infinity\<close>.  In every other case, also for \<open>+Infinity\<close>, it prepends a record
  with the parsed amount.
\<close>

theorem addTransaction_validation:
  "(fst (addTransaction d today st) \<noteq> None \<longleftrightarrow>
      blank (description' st) \<or> \<not> js_positive (parseFloat (amountStr st))) \<and>
   (fst (addTransaction d today st) \<noteq> None \<longrightarrow>
      addTransaction d today st = (Some alert_message, st)) \<and>
   (fst (addTransaction d today st) = None \<longrightarrow>
      (\<exists>t. transactions (snd (addTransaction d today st)) = t # transactions st \<and>
           amount t = parseFloat (amountStr st)))"
  by (auto simp: addTransaction_def Let_def trim_empty_iff js_positive_iff)

lemma parseFloat_Infinity: "parseFloat (ascii ''Infinity'') = PosInf"
  by (simp add: parseFloat_def unsigned_decimal_def ascii_def str_ws_def)

lemma parseFloat_4_50: "parseFloat (ascii ''4.50'') = Fin (9 / 2)"
  by (simp add: parseFloat_def unsigned_decimal_def ascii_def str_ws_def is_digit_def
      exponent_part_def digits_value_def digit_val_def pow10_def Let_def)

lemma parseFloat_abc: "parseFloat (ascii ''abc'') = NaN"
  by (simp add: parseFloat_def unsigned_decimal_def ascii_def str_ws_def is_digit_def Let_def)

lemma parseFloat_minus5: "parseFloat (ascii ''-5'') = Fin (- 5)"
  by (simp add: parseFloat_def unsigned_decimal_def ascii_def str_ws_def is_digit_def
      exponent_part_def digits_value_def digit_val_def pow10_def Let_def)

theorem addTransaction_validation_witness:
  "blank (ascii ''  '') \<and>
   addTransaction 5 today0 (fill_form (ascii ''  '') (ascii ''4.50'') Expense (mount [] today0 0))
     = (Some alert_message, fill_form (ascii ''  '') (ascii ''4.50'') Expense (mount [] today0 0)) \<and>
   \<not> js_positive (parseFloat (ascii ''abc'')) \<and>
   fst (addTransaction 5 today0 (fill_form (ascii ''Tea'') (ascii ''abc'') Expense (mount [] today0 0)))
     \<noteq> None \<and>
   \<not> js_positive (parseFloat (ascii ''-5'')) \<and>
   fst (addTransaction 5 today0 (fill_form (ascii ''Tea'') (ascii ''-5'') Expense (mount [] today0 0)))
     \<noteq> None \<and>
   \<not> blank (ascii ''Tea'') \<and> js_positive (parseFloat (ascii ''4.50'')) \<and>
   fst (addTransaction 5 today0 (fill_form (ascii ''Tea'') (ascii ''4.50'') Expense (mount [] today0 0)))
     = None"
  using
    addTransaction_validation [of 5 today0 "fill_form (ascii ''  '') (ascii ''4.50'') Expense (mount [] today0 0)"]
    addTransaction_validation [of 5 today0 "fill_form (ascii ''Tea'') (ascii ''abc'') Expense (mount [] today0 0)"]
    addTransaction_validation [of 5 today0 "fill_form (ascii ''Tea'') (ascii ''-5'') Expense (mount [] today0 0)"]
    addTransaction_validation [of 5 today0 "fill_form (ascii ''Tea'') (ascii ''4.50'') Expense (mount [] today0 0)"]
  by (simp add: fill_form_def parseFloat_4_50 parseFloat_abc parseFloat_minus5 js_positive_def)
     (simp add: blank_def ascii_def str_ws_def)

text \<open>
  C3 as stated fails: with the description \<open>Rent\<close> and the amount text \<open>Infinity\<close>
  the parsed amount is not a positive finite number, and yet no alert is raised and a
  record with the amount \<open>Infinity\<close> is added.
\<close>

theorem addTransaction_accepts_Infinity:
  "\<not> blank (ascii ''Rent'') \<and> \<not> positive_finite (parseFloat (ascii ''Infinity'')) \<and>
   fst (addTransaction 5 today0
         (fill_form (ascii ''Rent'') (ascii ''Infinity'') Expense (mount [] today0 0))) = None \<and>
   map amount (transactions (snd (addTransaction 5 today0
         (fill_form (ascii ''Rent'') (ascii ''Infinity'') Expense (mount [] today0 0))))) = [PosInf]"
  by (simp add: addTransaction_def fill_form_def mount_def balance_effect_def parseFloat_Infinity
      positive_finite_def Let_def trim_empty_iff)
     (simp add: blank_def ascii_def str_ws_def)

section \<open>Identifiers\<close>

lemma Number_toString_1704067200000:
  "Number_toString (Fin 1704067200000) = ascii ''1704067200000''"
  by code_simp

lemma parseFloat_3: "parseFloat (ascii ''3'') = Fin 3"
  by (simp add: parseFloat_def unsigned_decimal_def ascii_def str_ws_def is_digit_def
      exponent_part_def digits_value_def digit_val_def pow10_def Let_def)


lemma trim_Coffee: "trim (ascii ''Coffee'') = ascii ''Coffee''"
  by (simp add: trim_def ascii_def str_ws_def)

lemma trim_Tea: "trim (ascii ''Tea'') = ascii ''Tea''"
  by (simp add: trim_def ascii_def str_ws_def)


lemma ascii_Other_ne: "ascii (c # cs) \<noteq> []"
  by (simp add: ascii_def)

lemma one_added_eq:
  "one_added =
     \<lparr>transactions = [\<lparr>id' = ascii ''1704067200000'', description = ascii ''Coffee'',
          amount = Fin (9 / 2), category = ascii ''Other'', type = Expense, date = today0\<rparr>],
      description' = [], amountStr = [], category' = ascii ''Other'', type' = Expense,
      date' = today0, displayBalance = Fin 0, prevBalanceRef = Fin 0,
      raf = Some \<lparr>from' = Fin 0, to' = Fin (- (9 / 2)), start = 1000\<rparr>\<rparr>"
  by (simp add: one_added_def click_add_def fill_form_def mount_def addTransaction_def
      rerender_def balance_effect_def balance_effect_cleanup_def balance_def Let_def
      parseFloat_4_50 trim_Coffee ascii_Other_ne Number_toString_1704067200000)

text \<open>
  C8 (as amended).  A successful \<open>addTransaction\<close> gives the new record the decimal
  rendering of \<open>Date.now()\<close> as its id and puts it in front.  The ids of the list stay
  pairwise distinct when they were so before and no record of the list already has that
  rendering as its id; \<open>deleteTx\<close> keeps ids pairwise distinct.
\<close>

theorem addTransaction_id:
  "(fst (addTransaction d today st) = None \<longrightarrow>
      map id' (transactions (snd (addTransaction d today st))) =
        Number_toString (Fin (of_int d)) # map id' (transactions st)) \<and>
   (fst (addTransaction d today st) = None \<and> distinct (map id' (transactions st)) \<and>
    Number_toString (Fin (of_int d)) \<notin> set (map id' (transactions st)) \<longrightarrow>
      distinct (map id' (transactions (snd (addTransaction d today st))))) \<and>
   (distinct (map id' s) \<longrightarrow> distinct (map id' (deleteTx i s)))"
  by (auto simp: addTransaction_def Let_def deleteTx_def distinct_map_filter)

theorem addTransaction_id_witness:
  "fst (addTransaction 1704067200000 today0
         (fill_form (ascii ''Coffee'') (ascii ''4.50'') Expense (mount [paycheck] today0 0))) = None \<and>
   distinct (map id' [paycheck]) \<and>
   Number_toString (Fin (of_int 1704067200000)) \<notin> set (map id' [paycheck]) \<and>
   map id' (transactions (snd (addTransaction 1704067200000 today0
         (fill_form (ascii ''Coffee'') (ascii ''4.50'') Expense (mount [paycheck] today0 0))))) =
     [ascii ''1704067200000'', ascii ''1704153600000''] \<and>
   distinct (map id' (transactions (snd (addTransaction 1704067200000 today0
         (fill_form (ascii ''Coffee'') (ascii ''4.50'') Expense (mount [paycheck] today0 0)))))) \<and>
   distinct (map id' (deleteTx (id' coffee) [paycheck]))"
proof -
  have "fst (addTransaction 1704067200000 today0
         (fill_form (ascii ''Coffee'') (ascii ''4.50'') Expense (mount [paycheck] today0 0))) = None"
    by (simp add: addTransaction_def fill_form_def mount_def balance_effect_def parseFloat_4_50
        trim_Coffee ascii_Other_ne Let_def)
  then show ?thesis
    using addTransaction_id [of 1704067200000 today0
      "fill_form (ascii ''Coffee'') (ascii ''4.50'') Expense (mount [paycheck] today0 0)"
      "[paycheck]" "id' coffee"]
    by (simp add: fill_form_def mount_def balance_effect_def Number_toString_1704067200000
        paycheck_def)
       (simp add: ascii_def)
qed

text \<open>
  C8 as stated fails: two clicks on \<open>Add\<close> within the same millisecond give two records
  the same id.
\<close>

theorem addTransaction_same_millisecond:
  "fst (addTransaction 1704067200000 today0
         (fill_form (ascii ''Tea'') (ascii ''3'') Expense one_added)) = None \<and>
   map id' (transactions one_added) = [ascii ''1704067200000''] \<and>
   map id' (transactions two_added) = [ascii ''1704067200000'', ascii ''1704067200000''] \<and>
   \<not> distinct (map id' (transactions two_added))"
  by (simp add: two_added_def one_added_eq click_add_def fill_form_def addTransaction_def
      rerender_def balance_effect_def balance_effect_cleanup_def balance_def Let_def
      parseFloat_3 trim_Tea ascii_Other_ne Number_toString_1704067200000)

section \<open>The balance animation\<close>

lemma js_arith_simps:
  "js_add (Fin 0) x = x" "js_add x (Fin 0) = x" "js_neg (Fin 0) = Fin 0" "js_mul x (Fin 1) = x"
  by (cases x; simp)+








lemma balance_paycheck: "balance [paycheck] = Fin 1000"
  by (simp add: balance_def paycheck_def)

lemma toFixed2_half_way:
  "Number_toFixed2 (Fin (1000 - 1000 * (1 / 2) ^ 3)) = Fin 875"
  by code_simp

lemma toFixed2_1000: "Number_toFixed2 (Fin 1000) = Fin 1000"
  by code_simp

text \<open>
  C7 (as amended).  On mount the displayed value is \<open>0\<close> and a run of the animation from
  \<open>0\<close> to the first balance is started.  A frame before the 550 ms are over shows the
  eased part of the balance, rounded to two decimals; the first frame from 550 ms on
  shows the balance rounded to two decimals, records it as the previous target and ends
  the run.
\<close>

theorem mount_counts_up_from_zero:
  "displayBalance (mount txs today now) = Fin 0 \<and>
   raf (mount txs today now) = Some \<lparr>from' = Fin 0, to' = balance txs, start = now\<rparr> \<and>
   (t < now + 550 \<longrightarrow>
      displayBalance (step t (mount txs today now)) =
        Number_toFixed2 (js_mul (balance txs) (Fin (1 - (1 - (t - now) / 550) ^ 3))) \<and>
      raf (step t (mount txs today now)) = raf (mount txs today now)) \<and>
   (now + 550 \<le> t \<longrightarrow>
      displayBalance (step t (mount txs today now)) = Number_toFixed2 (balance txs) \<and>
      prevBalanceRef (step t (mount txs today now)) = balance txs \<and>
      raf (step t (mount txs today now)) = None)"
  by (simp add: mount_def balance_effect_def step_def Let_def js_sub_def js_arith_simps min_def)

theorem mount_counts_up_from_zero_witness:
  "(275 :: rat) < 0 + 550 \<and>
   displayBalance (step 275 (mount [paycheck] today0 0)) = Fin 875 \<and>
   raf (step 275 (mount [paycheck] today0 0)) =
     Some \<lparr>from' = Fin 0, to' = Fin 1000, start = 0\<rparr> \<and>
   (0 :: rat) + 550 \<le> 600 \<and>
   displayBalance (step 600 (mount [paycheck] today0 0)) = Fin 1000 \<and>
   raf (step 600 (mount [paycheck] today0 0)) = None"
  using mount_counts_up_from_zero [of "[paycheck]" today0 0 275]
    mount_counts_up_from_zero [of "[paycheck]" today0 0 600]
  by (simp add: balance_paycheck toFixed2_half_way toFixed2_1000)

text \<open>
  C7 as stated fails: with one stored income of 1000 the first balance is 1000, the
  displayed value after mount is 0, and half-way through the 550 ms it is 875.
\<close>

theorem mount_displays_zero:
  "balance [paycheck] = Fin 1000 \<and>
   displayBalance (mount [paycheck] today0 0) = Fin 0 \<and>
   displayBalance (step 275 (mount [paycheck] today0 0)) = Fin 875"
proof -
  have "displayBalance (step 275 (mount [paycheck] today0 0)) =
      Number_toFixed2 (js_mul (Fin 1000) (Fin (1 - (1 - (275 - 0) / 550) ^ 3)))"
    by (simp add: mount_def balance_effect_def step_def Let_def js_sub_def js_arith_simps
        balance_paycheck)
  then show ?thesis
    by (simp add: toFixed2_half_way balance_paycheck) (simp add: mount_def balance_effect_def)
qed






section \<open>Spend by category\<close>

lemma first_seen_snoc:
  "first_seen (xs @ [x]) = (if x \<in> set (first_seen xs) then first_seen xs else first_seen xs @ [x])"
  by (simp add: first_seen_def)

lemma first_seen_Nil: "first_seen [] = []"
  by (simp add: first_seen_def)


lemma distinct_first_seen: "distinct (first_seen xs)"
  by (induction xs rule: rev_induct) (auto simp: first_seen_snoc first_seen_Nil)









section \<open>Numbers as text\<close>



lemma digit_unit:
  assumes "d < 10"
  shows "is_digit (of_nat d + 0x30)" and "digit_val (of_nat d + 0x30) = d"
    and "unat (of_nat d + 0x30 :: 16 word) = d + 48"
proof -
  have eq: "(of_nat d + 0x30 :: 16 word) = of_nat (d + 48)" by simp
  have "unat (of_nat (d + 48) :: 16 word) = (d + 48) mod 2 ^ LENGTH(16)"
    by (rule unat_of_nat)
  also have "\<dots> = d + 48" using assms by simp
  finally have u: "unat (of_nat d + 0x30 :: 16 word) = d + 48"
    by (simp only: eq)
  then show "unat (of_nat d + 0x30 :: 16 word) = d + 48" .
  show "digit_val (of_nat d + 0x30) = d" by (simp add: digit_val_def u)
  show "is_digit (of_nat d + 0x30)"
    using assms by (simp add: is_digit_def word_le_nat_alt u)
qed

lemma nat_digits_all: "list_all is_digit (nat_digits n)"
proof (induction n rule: nat_digits.induct)
  case (1 n)
  show ?case
  proof (cases "n < 10")
    case True
    then show ?thesis by (subst nat_digits.simps) (simp add: digit_unit)
  next
    case False
    then show ?thesis using 1 by (subst nat_digits.simps) (simp add: digit_unit)
  qed
qed

lemma nat_digits_not_Nil: "nat_digits n \<noteq> []"
  by (subst nat_digits.simps) simp

lemma digits_value_snoc: "digits_value (xs @ [c]) = 10 * digits_value xs + digit_val c"
  by (simp add: digits_value_def)

lemma digits_value_nat_digits: "digits_value (nat_digits n) = n"
proof (induction n rule: nat_digits.induct)
  case (1 n)
  show ?case
  proof (cases "n < 10")
    case True
    then show ?thesis by (subst nat_digits.simps) (simp add: digit_unit digits_value_def)
  next
    case False
    then show ?thesis using 1
      by (subst nat_digits.simps) (simp add: digits_value_snoc digit_unit)
  qed
qed

lemma hd_nat_digits: "0 < n \<Longrightarrow> hd (nat_digits n) \<noteq> 0x30"
proof (induction n rule: nat_digits.induct)
  case (1 n)
  show ?case
  proof (cases "n < 10")
    case True
    have "unat (of_nat n + 0x30 :: 16 word) \<noteq> unat (0x30 :: 16 word)"
      using True "1.prems" by (simp add: digit_unit)
    then have "(of_nat n + 0x30 :: 16 word) \<noteq> 0x30" by metis
    with True show ?thesis by (subst nat_digits.simps) simp
  next
    case False
    then have "0 < n div 10" by simp
    with 1 False have "hd (nat_digits (n div 10)) \<noteq> 0x30" by simp
    with False show ?thesis
      by (subst nat_digits.simps) (simp add: nat_digits_not_Nil)
  qed
qed

lemma nat_digits_times10: "0 < s \<Longrightarrow> nat_digits (s * 10) = nat_digits s @ [0x30]"
  by (subst nat_digits.simps) simp

lemma nat_digits_pow10: "0 < s \<Longrightarrow> nat_digits (s * 10 ^ j) = nat_digits s @ replicate j 0x30"
proof (induction j)
  case 0
  show ?case by simp
next
  case (Suc j)
  have "s * 10 ^ Suc j = (s * 10 ^ j) * 10" by simp
  then have "nat_digits (s * 10 ^ Suc j) = nat_digits ((s * 10 ^ j) * 10)"
    by (rule arg_cong)
  also have "\<dots> = nat_digits (s * 10 ^ j) @ [0x30]"
    using Suc.prems by (intro nat_digits_times10) simp
  also have "\<dots> = nat_digits s @ replicate (Suc j) 0x30"
    using Suc by (simp add: replicate_append_same)
  finally show ?case .
qed

lemma digits_value_append:
  "digits_value (xs @ ys) = digits_value xs * 10 ^ length ys + digits_value ys"
proof (induction ys rule: rev_induct)
  case Nil
  show ?case by (simp add: digits_value_def)
next
  case (snoc y ys)
  have "digits_value (xs @ ys @ [y]) = 10 * digits_value (xs @ ys) + digit_val y"
    using digits_value_snoc [of "xs @ ys" y] by simp
  then show ?case by (simp add: snoc digits_value_snoc algebra_simps)
qed

lemma digits_value_zeros: "digits_value (replicate j 0x30) = 0"
  by (induction j) (simp_all add: digits_value_def digit_val_def)

lemma takeWhile_all:
  "list_all P xs \<Longrightarrow> rest = [] \<or> \<not> P (hd rest) \<Longrightarrow>
   takeWhile P (xs @ rest) = xs \<and> dropWhile P (xs @ rest) = rest"
  by (induction xs) (auto simp: takeWhile_eq_Nil_iff dropWhile_eq_self_iff)



lemma pow10_powi: "pow10 e = 10 powi e"
  by (simp add: pow10_def power_int_def power_one_over inverse_eq_divide)

lemma pow10_add: "pow10 (a + b) = pow10 a * pow10 b"
  by (simp add: pow10_powi power_int_add)

lemma pow10_int: "pow10 (int n) = 10 ^ n"
  by (simp add: pow10_def)

lemma pow10_pos: "0 < pow10 e"
  by (simp add: pow10_def)

lemma strip_zeros_value:
  "strip_zeros s e = (s', e') \<Longrightarrow>
   of_nat s * pow10 e = of_nat s' * pow10 e' \<and> (0 < s \<longrightarrow> 0 < s')"
proof (induction s e rule: strip_zeros.induct)
  case (1 s e)
  show ?case
  proof (cases "s \<noteq> 0 \<and> s mod 10 = 0")
    case False
    with "1.prems" show ?thesis by (subst (asm) strip_zeros.simps) auto
  next
    case True
    with "1.prems" have rec: "strip_zeros (s div 10) (e + 1) = (s', e')"
      by (subst (asm) strip_zeros.simps) simp
    from True have s: "s = 10 * (s div 10)" and pos: "0 < s div 10" by auto
    have "(of_nat s :: rat) * pow10 e = of_nat (10 * (s div 10)) * pow10 e"
      using s by simp
    also have "\<dots> = of_nat (s div 10) * pow10 (e + 1)"
      by (simp add: pow10_add pow10_int [of 1, simplified])
    finally show ?thesis
      using "1.IH" [OF True rec] pos by simp
  qed
qed

lemma multiplicity_of_ge:
  "1 < p \<Longrightarrow> 0 < b \<Longrightarrow> p ^ j dvd b \<Longrightarrow> j \<le> multiplicity_of p b"
proof (induction p b arbitrary: j rule: multiplicity_of.induct)
  case (1 p b)
  show ?case
  proof (cases j)
    case 0
    then show ?thesis by simp
  next
    case (Suc i)
    with "1.prems" have pb: "p dvd b"
      by (metis dvd_mult_left power_Suc)
    then have m: "b mod p = 0" by simp
    from pb "1.prems" obtain c where c: "b = p * c" by (auto elim: dvdE)
    with "1.prems" have cpos: "0 < c" by (cases c) simp_all
    from c "1.prems" have div: "b div p = c" by simp
    from "1.prems" Suc c have "p ^ i dvd c" by simp
    with "1.IH" [of i] "1.prems" m div cpos have "i \<le> multiplicity_of p c" by simp
    moreover have "multiplicity_of p b = Suc (multiplicity_of p c)"
      using "1.prems" m div by (subst multiplicity_of.simps) simp
    ultimately show ?thesis using Suc by simp
  qed
qed

lemma dvd_prime_power:
  fixes p x :: nat
  assumes prime: "\<And>d. d dvd p \<Longrightarrow> d = 1 \<or> d = p"
  shows "x dvd p ^ n \<Longrightarrow> \<exists>i. x = p ^ i"
proof (induction n arbitrary: x)
  case 0
  then have "x = p ^ 0" by simp
  then show ?case by blast
next
  case (Suc n)
  show ?case
  proof (cases "p dvd x")
    case True
    then obtain y where y: "x = p * y" by (auto elim: dvdE)
    show ?thesis
    proof (cases "p = 0")
      case True
      with y have "x = p ^ 1" by simp
      then show ?thesis by blast
    next
      case False
      with Suc.prems y have "y dvd p ^ n" by simp
      then obtain i where "y = p ^ i" using Suc.IH by blast
      with y have "x = p ^ Suc i" by simp
      then show ?thesis by blast
    qed
  next
    case False
    have "gcd x p = 1 \<or> gcd x p = p" by (rule prime) simp
    moreover have "gcd x p \<noteq> p" using False by (metis gcd_dvd1)
    ultimately have "coprime x p" by (simp add: coprime_iff_gcd_eq_1)
    with Suc.prems have "x dvd p ^ n"
      by (simp add: coprime_dvd_mult_right_iff)
    then show ?thesis using Suc.IH by blast
  qed
qed

lemma divisors_2: "d dvd (2 :: nat) \<Longrightarrow> d = 1 \<or> d = 2"
proof -
  assume d: "d dvd (2 :: nat)"
  then have "d \<le> 2" by (rule dvd_imp_le) simp
  then consider "d = 0" | "d = 1" | "d = 2" by arith
  then show ?thesis using d by cases simp_all
qed

lemma divisors_5: "d dvd (5 :: nat) \<Longrightarrow> d = 1 \<or> d = 5"
proof -
  assume d: "d dvd (5 :: nat)"
  then have "d \<le> 5" by (rule dvd_imp_le) simp
  then consider "d = 0" | "d = 1" | "d = 2" | "d = 3" | "d = 4" | "d = 5" by arith
  then show ?thesis using d by cases simp_all
qed

lemma dvd_pow10:
  fixes b :: nat
  assumes "0 < b" "b dvd 10 ^ n"
  shows "b dvd 10 ^ max (multiplicity_of 2 b) (multiplicity_of 5 b)"
proof -
  have "(10 :: nat) ^ n = 2 ^ n * 5 ^ n"
    by (simp add: power_mult_distrib [symmetric])
  with assms obtain x y where b: "b = x * y" and x: "x dvd 2 ^ n" and y: "y dvd 5 ^ n"
    using division_decomp [of b "2 ^ n" "5 ^ n"] by auto
  from x obtain i where i: "x = 2 ^ i"
    using dvd_prime_power [of 2 x n] divisors_2 by blast
  from y obtain j where j: "y = 5 ^ j"
    using dvd_prime_power [of 5 y n] divisors_5 by blast
  have "i \<le> multiplicity_of 2 b"
    using assms(1) by (intro multiplicity_of_ge) (simp_all add: b i)
  moreover have "j \<le> multiplicity_of 5 b"
    using assms(1) by (intro multiplicity_of_ge) (simp_all add: b j)
  ultimately have "2 ^ i dvd (2 :: nat) ^ max (multiplicity_of 2 b) (multiplicity_of 5 b)"
    and "5 ^ j dvd (5 :: nat) ^ max (multiplicity_of 2 b) (multiplicity_of 5 b)"
    by (simp_all add: le_imp_power_dvd)
  then have "2 ^ i * 5 ^ j dvd
      (2 :: nat) ^ max (multiplicity_of 2 b) (multiplicity_of 5 b) *
      5 ^ max (multiplicity_of 2 b) (multiplicity_of 5 b)"
    by (rule mult_dvd_mono)
  then show ?thesis
    by (simp add: b i j power_mult_distrib [symmetric])
qed


lemma decimal_of_value:
  assumes pos: "0 < q" and dec: "q = of_nat s0 * pow10 e0" and res: "decimal_of q = (s, e)"
  shows "0 < s \<and> q = of_nat s * pow10 e"
proof -
  obtain a b where ab: "quotient_of q = (a, b)" by (cases "quotient_of q")
  have bpos: "0 < b" using ab by (rule quotient_of_denom_pos)
  have cop: "coprime a b" using ab by (rule quotient_of_coprime)
  have q: "q = of_int a / of_int b" using ab by (rule quotient_of_div)
  have apos: "0 < a" using pos bpos by (simp add: q zero_less_divide_iff)
  define n where "n = nat (- e0)"
  define z where "z = int s0 * 10 ^ nat e0"
  have "q * 10 ^ n = of_int z"
  proof (cases "0 \<le> e0")
    case True
    then show ?thesis by (simp add: dec pow10_def n_def z_def)
  next
    case False
    then show ?thesis by (simp add: dec pow10_def n_def z_def)
  qed
  then have "of_int a * 10 ^ n = (of_int z :: rat) * of_int b"
    using bpos by (simp add: q field_simps)
  then have "(of_int (a * 10 ^ n) :: rat) = of_int (z * b)" by simp
  then have "a * 10 ^ n = z * b" by (simp only: of_int_eq_iff)
  then have "b dvd a * 10 ^ n" by simp
  with cop have "b dvd 10 ^ n"
    by (simp add: coprime_dvd_mult_right_iff coprime_commute)
  then have "nat b dvd nat (10 ^ n)" using bpos by (simp add: nat_dvd_iff)
  then have nd: "nat b dvd 10 ^ n" by (simp add: nat_power_eq)
  define m where "m = max (multiplicity_of 2 (nat b)) (multiplicity_of 5 (nat b))"
  have "nat b dvd 10 ^ m"
    unfolding m_def using bpos nd by (intro dvd_pow10) simp_all
  then have "int (nat b) dvd int (10 ^ m)" by (simp only: int_dvd_int_iff)
  then have "b dvd 10 ^ m" using bpos by simp
  then obtain c where c: "(10 :: int) ^ m = b * c" by (auto elim: dvdE)
  have cpos: "0 < c"
  proof -
    have "0 < b * c" using c [symmetric] by simp
    then show ?thesis using bpos by (simp add: zero_less_mult_iff)
  qed
  have quo: "a * 10 ^ m div b = a * c" using bpos by (simp add: c)
  have "q = of_int (a * c) / 10 ^ m"
  proof -
    have "(10 :: rat) ^ m = of_int b * of_int c"
      using c by (metis of_int_mult of_int_numeral of_int_power)
    then show ?thesis using bpos cpos by (simp add: q)
  qed
  moreover have "0 < a * c" using apos cpos by simp
  ultimately have v: "q = of_nat (nat (a * c)) * pow10 (- int m)"
    by (simp add: pow10_def)
  have "strip_zeros (nat (a * c)) (- int m) = (s, e)"
    using res by (simp add: decimal_of_def ab m_def [symmetric] quo Let_def)
  from strip_zeros_value [OF this] v \<open>0 < a * c\<close> show ?thesis by simp
qed



lemma is_digit_not_special:
  "is_digit c \<Longrightarrow> c \<noteq> 0x2D \<and> c \<noteq> 0x2E \<and> c \<noteq> 0x65 \<and> c \<noteq> 0x45 \<and> c \<noteq> 0x2B"
  by (auto simp: is_digit_def)

lemma scan_integer_digits:
  assumes "list_all is_digit ip" "ip \<noteq> []" "hd ip \<noteq> 0x30 \<or> ip = [0x30]"
    and "T = [] \<or> \<not> is_digit (hd T)"
  shows "scan_integer (ip @ T) = Some (ip, T)"
proof (cases "hd ip = 0x30")
  case True
  with assms(3) have "ip = [0x30]" by simp
  then show ?thesis by (simp add: scan_integer_def)
next
  case False
  with assms(2) have "\<not> (ip @ T \<noteq> [] \<and> hd (ip @ T) = 0x30)" by simp
  moreover have "takeWhile is_digit (ip @ T) = ip" "dropWhile is_digit (ip @ T) = T"
    using takeWhile_all [of is_digit ip T] assms by auto
  ultimately show ?thesis using assms(2) by (simp add: scan_integer_def)
qed

lemma scan_fraction_none:
  "T = [] \<or> hd T \<noteq> 0x2E \<Longrightarrow> scan_fraction T = Some ([], T)"
  by (auto simp: scan_fraction_def)

lemma scan_fraction_digits:
  assumes "list_all is_digit fp" "fp \<noteq> []" "T = [] \<or> \<not> is_digit (hd T)"
  shows "scan_fraction (0x2E # fp @ T) = Some (fp, T)"
  using takeWhile_all [of is_digit fp T] assms by (simp add: scan_fraction_def)

lemma scan_exponent_none:
  "T = [] \<or> (hd T \<noteq> 0x65 \<and> hd T \<noteq> 0x45) \<Longrightarrow> scan_exponent T = Some (0, T)"
  by (auto simp: scan_exponent_def)

lemma scan_exponent_digits:
  assumes "list_all is_digit ep" "ep \<noteq> []" "T = [] \<or> \<not> is_digit (hd T)"
    and "sg = 0x2B \<or> sg = 0x2D"
  shows "scan_exponent (0x65 # sg # ep @ T) =
     Some (if sg = 0x2D then - int (digits_value ep) else int (digits_value ep), T)"
  using takeWhile_all [of is_digit ep T] assms by (auto simp: scan_exponent_def Let_def)

lemma scan_number_digits:
  assumes "list_all is_digit ip" "ip \<noteq> []"
  shows "scan_number (ip @ T) = scan_unsigned (ip @ T)"
proof -
  from assms have "is_digit (hd ip)" by (cases ip) simp_all
  then have "hd ip \<noteq> 0x2D" using is_digit_not_special by blast
  with assms(2) show ?thesis by (cases ip) (simp_all add: scan_number_def)
qed


lemma zeros_all: "list_all is_digit (replicate j 0x30)"
  by (induction j) (simp_all add: is_digit_def)

lemma scan_unsigned_parts:
  assumes "scan_integer (ip @ T1) = Some (ip, T1)" "scan_fraction T1 = Some (fp, T2)"
    and "scan_exponent T2 = Some (x, T3)"
  shows "scan_unsigned (ip @ T1) =
     Some (of_nat (digits_value (ip @ fp)) * pow10 (x - int (length fp)), T3)"
  by (simp add: scan_unsigned_def assms)

lemma scan_toString_pos:
  assumes pos: "0 < q" and dec: "q = of_nat s0 * pow10 e0"
    and rest: "rest = [] \<or>
      (\<not> is_digit (hd rest) \<and> hd rest \<noteq> 0x2E \<and> hd rest \<noteq> 0x65 \<and> hd rest \<noteq> 0x45)"
  shows "scan_number (toString_pos q @ rest) = Some (q, rest)"
proof -
  obtain s e where de: "decimal_of q = (s, e)" by (cases "decimal_of q")
  from decimal_of_value [OF pos dec de] have spos: "0 < s" and q: "q = of_nat s * pow10 e"
    by simp_all
  define ds where "ds = nat_digits s"
  define k where "k = int (length ds)"
  define n where "n = e + k"
  have ds_all: "list_all is_digit ds" by (simp add: ds_def nat_digits_all)
  have ds_ne: "ds \<noteq> []" by (simp add: ds_def nat_digits_not_Nil)
  have ds_hd: "hd ds \<noteq> 0x30" using spos by (simp add: ds_def hd_nat_digits)
  have ds_val: "digits_value ds = s" by (simp add: ds_def digits_value_nat_digits)
  have kpos: "0 < k" using ds_ne by (simp add: k_def)
  have e: "e = n - k" by (simp add: n_def)
  have gen: "toString_pos q =
     (if - 6 < n \<and> n \<le> 21 then
        (if k \<le> n then ds @ replicate (nat (n - k)) 0x30
         else if 0 < n then take (nat n) ds @ [0x2E] @ drop (nat n) ds
         else [0x30, 0x2E] @ replicate (nat (- n)) 0x30 @ ds)
      else
        (let ex = (if n - 1 < 0 then [0x2D] else [0x2B]) @ nat_digits (nat \<bar>n - 1\<bar>)
         in if k = 1 then ds @ [0x65] @ ex
            else [hd ds, 0x2E] @ tl ds @ [0x65] @ ex))"
    unfolding toString_pos_def de n_def k_def ds_def by (simp only: Let_def prod.case)
  have rest_d: "rest = [] \<or> \<not> is_digit (hd rest)" using rest by blast
  have fr: "scan_fraction rest = Some ([], rest)" using rest by (auto intro: scan_fraction_none)
  have ex0: "scan_exponent rest = Some (0, rest)" using rest by (auto intro: scan_exponent_none)
  show ?thesis
  proof (cases "- 6 < n \<and> n \<le> 21")
    case True
    show ?thesis
    proof (cases "k \<le> n")
      case kn: True
      define ip where "ip = ds @ replicate (nat (n - k)) 0x30"
      have lay: "toString_pos q = ip"
        using True kn
        by (simp add: gen ip_def)
      have ip_all: "list_all is_digit ip"
        using ds_all by (simp add: ip_def zeros_all)
      have ip_ne: "ip \<noteq> []" using ds_ne by (simp add: ip_def)
      have ip_hd: "hd ip \<noteq> 0x30" using ds_hd ds_ne by (simp add: ip_def)
      have "scan_integer (ip @ rest) = Some (ip, rest)"
        using ip_all ip_ne ip_hd rest_d by (intro scan_integer_digits) auto
      from scan_unsigned_parts [OF this fr ex0]
      have "scan_unsigned (ip @ rest) = Some (of_nat (digits_value ip) * pow10 0, rest)"
        by simp
      moreover have "digits_value ip = s * 10 ^ nat (n - k)"
        by (simp add: ip_def digits_value_append ds_val digits_value_zeros)
      moreover have "pow10 e = 10 ^ nat (n - k)" using kn by (simp add: e pow10_def)
      ultimately have "scan_unsigned (ip @ rest) = Some (q, rest)"
        by (simp add: q pow10_def)
      then show ?thesis
        using scan_number_digits [OF ip_all ip_ne, of rest] by (simp add: lay)
    next
      case kn: False
      show ?thesis
      proof (cases "0 < n")
        case npos: True
        define ip where "ip = take (nat n) ds"
        define fp where "fp = drop (nat n) ds"
        have lay: "toString_pos q = ip @ 0x2E # fp"
          using True kn npos
          by (simp add: gen ip_def fp_def)
        have ip_all: "list_all is_digit ip"
          using ds_all by (auto simp: ip_def list_all_iff dest: in_set_takeD)
        have fp_all: "list_all is_digit fp"
          using ds_all by (auto simp: fp_def list_all_iff dest: in_set_dropD)
        have ip_ne: "ip \<noteq> []" using ds_ne npos by (simp add: ip_def)
        have fp_ne: "fp \<noteq> []" using kn npos by (simp add: fp_def k_def)
        have ip_hd: "hd ip \<noteq> 0x30" using ds_hd npos by (simp add: ip_def)
        have len: "int (length fp) = k - n" using kn npos by (simp add: fp_def k_def)
        have "scan_integer (ip @ 0x2E # fp @ rest) = Some (ip, 0x2E # fp @ rest)"
          using ip_all ip_ne ip_hd by (intro scan_integer_digits) (auto simp: is_digit_def)
        moreover have "scan_fraction (0x2E # fp @ rest) = Some (fp, rest)"
          using fp_all fp_ne rest_d by (intro scan_fraction_digits) auto
        ultimately have "scan_unsigned (ip @ 0x2E # fp @ rest) =
            Some (of_nat (digits_value (ip @ fp)) * pow10 (0 - int (length fp)), rest)"
          using ex0 by (rule scan_unsigned_parts)
        moreover have "ip @ fp = ds" by (simp add: ip_def fp_def)
        ultimately have "scan_unsigned (ip @ 0x2E # fp @ rest) = Some (q, rest)"
          by (simp add: q ds_val len e)
        then show ?thesis
          using scan_number_digits [OF ip_all ip_ne, of "0x2E # fp @ rest"] by (simp add: lay)
      next
        case npos: False
        define fp where "fp = replicate (nat (- n)) 0x30 @ ds"
        have lay: "toString_pos q = [0x30] @ 0x2E # fp"
          using True kn npos
          by (simp add: gen fp_def)
        have fp_all: "list_all is_digit fp"
          using ds_all by (simp add: fp_def zeros_all)
        have fp_ne: "fp \<noteq> []" using ds_ne by (simp add: fp_def)
        have len: "int (length fp) = k - n" using npos by (simp add: fp_def k_def)
        have z: "list_all is_digit [0x30]" "[0x30 :: 16 word] \<noteq> []"
          by (simp_all add: is_digit_def)
        have "scan_integer ([0x30] @ 0x2E # fp @ rest) = Some ([0x30], 0x2E # fp @ rest)"
          using z by (intro scan_integer_digits) (auto simp: is_digit_def)
        moreover have "scan_fraction (0x2E # fp @ rest) = Some (fp, rest)"
          using fp_all fp_ne rest_d by (intro scan_fraction_digits) auto
        ultimately have "scan_unsigned ([0x30] @ 0x2E # fp @ rest) =
            Some (of_nat (digits_value ([0x30] @ fp)) * pow10 (0 - int (length fp)), rest)"
          using ex0 by (rule scan_unsigned_parts)
        moreover have "digits_value ([0x30] @ fp) = s"
          using digits_value_append [of "0x30 # replicate (nat (- n)) 0x30" ds]
            digits_value_zeros [of "Suc (nat (- n))"]
          by (simp add: fp_def ds_val)
        ultimately have "scan_unsigned ([0x30] @ 0x2E # fp @ rest) = Some (q, rest)"
          by (simp add: q len e)
        then show ?thesis
          using scan_number_digits [OF z, of "0x2E # fp @ rest"] by (simp add: lay)
      qed
    qed
  next
    case False
    define sg :: "16 word" where "sg = (if n - 1 < 0 then 0x2D else 0x2B)"
    define ep where "ep = nat_digits (nat \<bar>n - 1\<bar>)"
    have ep_all: "list_all is_digit ep" by (simp add: ep_def nat_digits_all)
    have ep_ne: "ep \<noteq> []" by (simp add: ep_def nat_digits_not_Nil)
    have sg: "sg = 0x2B \<or> sg = 0x2D" by (simp add: sg_def)
    have xv: "(if sg = 0x2D then - int (digits_value ep) else int (digits_value ep)) = n - 1"
      by (simp add: sg_def ep_def digits_value_nat_digits)
    have ex: "scan_exponent (0x65 # sg # ep @ rest) = Some (n - 1, rest)"
      using scan_exponent_digits [OF ep_all ep_ne rest_d sg] by (simp only: xv)
    have "toString_pos q =
        (let ex = (if n - 1 < 0 then [0x2D] else [0x2B]) @ nat_digits (nat \<bar>n - 1\<bar>)
         in if k = 1 then ds @ [0x65] @ ex
            else [hd ds, 0x2E] @ tl ds @ [0x65] @ ex)"
      unfolding gen using False by (rule if_not_P)
    then have lay0: "toString_pos q =
        (if k = 1 then ds @ 0x65 # sg # ep else [hd ds] @ 0x2E # tl ds @ 0x65 # sg # ep)"
      by (simp add: Let_def sg_def ep_def)
    show ?thesis
    proof (cases "k = 1")
      case k1: True
      have lay: "toString_pos q = ds @ 0x65 # sg # ep"
        using k1 by (simp add: lay0)
      have "scan_integer (ds @ 0x65 # sg # ep @ rest) = Some (ds, 0x65 # sg # ep @ rest)"
        using ds_all ds_ne ds_hd by (intro scan_integer_digits) (auto simp: is_digit_def)
      moreover have "scan_fraction (0x65 # sg # ep @ rest) = Some ([], 0x65 # sg # ep @ rest)"
        by (intro scan_fraction_none) simp
      ultimately have "scan_unsigned (ds @ 0x65 # sg # ep @ rest) =
          Some (of_nat (digits_value (ds @ [])) * pow10 (n - 1 - int (length ([] :: jsstring))), rest)"
        using ex by (rule scan_unsigned_parts)
      then have "scan_unsigned (ds @ 0x65 # sg # ep @ rest) = Some (q, rest)"
        using k1 by (simp add: q ds_val e)
      then show ?thesis
        using scan_number_digits [OF ds_all ds_ne, of "0x65 # sg # ep @ rest"] by (simp add: lay)
    next
      case k1: False
      define fp where "fp = tl ds"
      have ds: "ds = hd ds # fp" using ds_ne by (simp add: fp_def)
      have lay: "toString_pos q = [hd ds] @ 0x2E # fp @ 0x65 # sg # ep"
        using k1 by (simp add: lay0 fp_def)
      have both: "is_digit (hd ds) \<and> list_all is_digit fp"
        using ds_all by (subst (asm) ds) simp
      then have fp_all: "list_all is_digit fp" by simp
      have len': "length ds = Suc (length fp)" by (subst ds) simp
      have fp_ne: "fp \<noteq> []" using k1 len' by (auto simp: k_def)
      have len: "int (length fp) = k - 1" using len' by (simp add: k_def)
      have h: "list_all is_digit [hd ds]" "[hd ds] \<noteq> []" "hd [hd ds] \<noteq> 0x30"
        using both ds_hd by simp_all
      have "scan_integer ([hd ds] @ 0x2E # fp @ 0x65 # sg # ep @ rest) =
          Some ([hd ds], 0x2E # fp @ 0x65 # sg # ep @ rest)"
        using h by (intro scan_integer_digits) (auto simp: is_digit_def)
      moreover have "scan_fraction (0x2E # fp @ 0x65 # sg # ep @ rest) =
          Some (fp, 0x65 # sg # ep @ rest)"
        using fp_all fp_ne by (intro scan_fraction_digits) (auto simp: is_digit_def)
      ultimately have "scan_unsigned ([hd ds] @ 0x2E # fp @ 0x65 # sg # ep @ rest) =
          Some (of_nat (digits_value ([hd ds] @ fp)) * pow10 (n - 1 - int (length fp)), rest)"
        using ex by (rule scan_unsigned_parts)
      moreover have "[hd ds] @ fp = ds" using ds by simp
      ultimately have "scan_unsigned ([hd ds] @ 0x2E # fp @ 0x65 # sg # ep @ rest) = Some (q, rest)"
        by (simp add: q ds_val len e)
      then show ?thesis
        using scan_number_digits [OF h(1,2), of "0x2E # fp @ 0x65 # sg # ep @ rest"]
        by (simp add: lay)
    qed
  qed
qed


section \<open>Strings as text\<close>


lemma unat_of_nat_16: "n < 65536 \<Longrightarrow> unat (of_nat n :: 16 word) = n"
  by (simp add: unat_of_nat)

lemma hex_val_hex_digit:
  assumes "n < 16"
  shows "hex_val (hex_digit n) = Some n"
proof (cases "n < 10")
  case True
  then have "unat (of_nat (48 + n) :: 16 word) = 48 + n" by (intro unat_of_nat_16) simp
  with True show ?thesis
    by (simp only: hex_digit_def hex_val_def word_le_nat_alt if_True) simp
next
  case False
  with assms have "unat (of_nat (87 + n) :: 16 word) = 87 + n" by (intro unat_of_nat_16) simp
  with False assms show ?thesis
    by (simp only: hex_digit_def hex_val_def word_le_nat_alt if_False) simp
qed

lemma hex_recompose:
  fixes a :: nat
  shows "a = 16 * b + r0 \<Longrightarrow> b = 16 * c + r1 \<Longrightarrow> c = 16 * d + r2 \<Longrightarrow>
    4096 * d + 256 * r2 + 16 * r1 + r0 = a"
  by simp

lemma hex_digits_value: "4096 * (u div 4096) + 256 * (u div 256 mod 16) +
      16 * (u div 16 mod 16) + u mod 16 = (u :: nat)"
proof -
  have 1: "u = 16 * (u div 16) + u mod 16" by simp
  have "u div 16 div 16 = u div 256" by (simp add: div_mult2_eq [symmetric])
  then have 2: "u div 16 = 16 * (u div 256) + u div 16 mod 16"
    using mult_div_mod_eq [of 16 "u div 16"] by simp
  have "u div 256 div 16 = u div 4096" by (simp add: div_mult2_eq [symmetric])
  then have 3: "u div 256 = 16 * (u div 4096) + u div 256 mod 16"
    using mult_div_mod_eq [of 16 "u div 256"] by simp
  show ?thesis using 1 2 3 by (rule hex_recompose)
qed

lemma unhex4_hex4:
  "unhex4 (hex_digit (unat c div 4096)) (hex_digit (unat c div 256 mod 16))
     (hex_digit (unat c div 16 mod 16)) (hex_digit (unat c mod 16)) = Some (c :: 16 word)"
proof -
  have "unat c < 65536" using unsigned_less [of c, where ?'a = nat] by simp
  then have d: "unat c div 4096 < 16" by simp
  show ?thesis
    by (simp add: unhex4_def hex_val_hex_digit d hex_digits_value)
qed

lemma scan_escape_unit: "scan_string (escape_unit c @ xs) = cons_unit c (scan_string xs)"
proof -
  consider "c = 0x08" | "c = 0x09" | "c = 0x0A" | "c = 0x0C" | "c = 0x0D" | "c = 0x22"
    | "c = 0x5C"
    | "c \<notin> {0x08, 0x09, 0x0A, 0x0C, 0x0D, 0x22, 0x5C}"
      "c < 0x20 \<or> is_high_surrogate c \<or> is_low_surrogate c"
    | "c \<notin> {0x08, 0x09, 0x0A, 0x0C, 0x0D, 0x22, 0x5C}"
      "\<not> (c < 0x20 \<or> is_high_surrogate c \<or> is_low_surrogate c)"
    by blast
  then show ?thesis
  proof cases
    case 8
    then show ?thesis
      using unhex4_hex4 [of c] by (simp add: escape_unit_def hex4_def)
  next
    case 9
    then show ?thesis by (simp add: escape_unit_def)
  qed (simp_all add: escape_unit_def unescape_def)
qed

lemma surrogate_plain:
  assumes "is_high_surrogate c \<or> is_low_surrogate c"
  shows "c \<noteq> 0x22" "c \<noteq> 0x5C" "\<not> c < 0x20"
  using assms
  by (auto simp: is_high_surrogate_def is_low_surrogate_def word_le_nat_alt word_less_nat_alt)

lemma scan_surrogate_pair:
  "is_high_surrogate c \<Longrightarrow> is_low_surrogate d \<Longrightarrow>
   scan_string (c # d # xs) = cons_unit c (cons_unit d (scan_string xs))"
  using surrogate_plain [of c] surrogate_plain [of d] by simp

lemma scan_quote_body: "scan_string (quote_body s @ 0x22 # rest) = Some (s, rest)"
proof (induction s rule: quote_body.induct)
  case 1
  show ?case by simp
next
  case (2 c)
  show ?case by (simp add: scan_escape_unit cons_unit_def)
next
  case (3 c d cs)
  show ?case
  proof (cases "is_high_surrogate c \<and> is_low_surrogate d")
    case True
    then have qb: "quote_body (c # d # cs) = c # d # quote_body cs"
      by (simp only: quote_body.simps simp_thms if_True)
    have "scan_string (quote_body cs @ 0x22 # rest) = Some (cs, rest)"
      using True by (rule "3.IH"(1))
    with True show ?thesis
      by (simp only: qb append_Cons scan_surrogate_pair) (simp add: cons_unit_def)
  next
    case False
    then have qb: "quote_body (c # d # cs) = escape_unit c @ quote_body (d # cs)"
      by (simp only: quote_body.simps if_False)
    have "scan_string (quote_body (d # cs) @ 0x22 # rest) = Some (d # cs, rest)"
      using False by (rule "3.IH"(2))
    then show ?thesis
      by (simp only: qb append_assoc scan_escape_unit) (simp add: cons_unit_def)
  qed
qed

lemma lex_string: "lex (JSON_quote s @ rest) = cons_token (TString s) (lex rest)"
  by (simp add: JSON_quote_def lex.simps scan_quote_body)

section \<open>The text of a record list\<close>

lemma scan_number_head:
  assumes "scan_number (h # xs) = Some r"
  shows "h = 0x2D \<or> is_digit h"
proof (rule ccontr)
  assume n: "\<not> (h = 0x2D \<or> is_digit h)"
  then have "h \<noteq> 0x30" by (auto simp: is_digit_def)
  with n have "scan_integer (h # xs) = None" by (simp add: scan_integer_def)
  with n assms show False by (simp add: scan_number_def scan_unsigned_def)
qed

lemma lex_number:
  assumes "scan_number (xs @ T) = Some (q, T)" "xs \<noteq> []"
  shows "lex (xs @ T) = cons_token (TNumber q) (lex T)"
proof -
  from assms(2) obtain h ys where xs: "xs = h # ys" by (cases xs) auto
  with assms(1) have "h = 0x2D \<or> is_digit h" using scan_number_head [of h "ys @ T"] by simp
  then have "h \<notin> {0x09, 0x0A, 0x0D, 0x20, 0x7B, 0x7D, 0x5B, 0x5D, 0x3A, 0x2C, 0x22, 0x74, 0x66, 0x6E}"
    by (auto simp: is_digit_def)
  then show ?thesis
    using assms(1) by (simp add: xs lex.simps)
qed

lemma lex_punctuation:
  "lex (0x7B # cs) = cons_token LBrace (lex cs)"
  "lex (0x7D # cs) = cons_token RBrace (lex cs)"
  "lex (0x5B # cs) = cons_token LBracket (lex cs)"
  "lex (0x5D # cs) = cons_token RBracket (lex cs)"
  "lex (0x3A # cs) = cons_token Colon (lex cs)"
  "lex (0x2C # cs) = cons_token Comma (lex cs)"
  by (simp_all add: lex.simps)


lemma Number_toString_valid:
  assumes "valid_amount x"
  shows "is_finite x" and "x = Fin (finite_value x)"
    and "lex (Number_toString x @ 0x2C # rest) =
      cons_token (TNumber (finite_value x)) (lex (0x2C # rest))"
proof -
  from assms obtain s e where s: "0 < s" and x: "x = Fin (of_nat s * pow10 e)"
    by (auto simp: valid_amount_def)
  define q where "q = (of_nat s :: rat) * pow10 e"
  have pos: "0 < q" using s by (simp add: q_def pow10_pos)
  show "is_finite x" by (simp add: x is_finite_def)
  show "x = Fin (finite_value x)" by (simp add: x finite_value_def)
  have str: "Number_toString x = toString_pos q"
    using pos by (simp add: Number_toString_def x q_def [symmetric])
  have sc: "scan_number (toString_pos q @ T) = Some (q, T)"
    if "T = [] \<or> (\<not> is_digit (hd T) \<and> hd T \<noteq> 0x2E \<and> hd T \<noteq> 0x65 \<and> hd T \<noteq> 0x45)" for T
    using pos q_def that by (rule scan_toString_pos)
  from sc [of "[]"] have ne: "toString_pos q \<noteq> []" by (auto simp: scan_number_def)
  have "scan_number (toString_pos q @ 0x2C # rest) = Some (q, 0x2C # rest)"
    by (rule sc) (simp add: is_digit_def)
  from lex_number [OF this ne] show "lex (Number_toString x @ 0x2C # rest) =
      cons_token (TNumber (finite_value x)) (lex (0x2C # rest))"
    by (simp add: str) (simp add: x finite_value_def q_def)
qed

lemma lex_tx:
  assumes "valid_amount (amount t)"
  shows "lex (JSON_stringify (tx_json t) @ rest) = map_option ((@) (tx_tokens t)) (lex rest)"
proof -
  note n = Number_toString_valid [OF assms]
  have "lex (JSON_stringify (tx_json t) @ rest) =
    cons_token LBrace (cons_token (TString (ascii ''id'')) (cons_token Colon
      (cons_token (TString (id' t)) (cons_token Comma
      (cons_token (TString (ascii ''description'')) (cons_token Colon
      (cons_token (TString (description t)) (cons_token Comma
      (cons_token (TString (ascii ''amount'')) (cons_token Colon
      (cons_token (TNumber (finite_value (amount t))) (cons_token Comma
      (cons_token (TString (ascii ''category'')) (cons_token Colon
      (cons_token (TString (category t)) (cons_token Comma
      (cons_token (TString (ascii ''type'')) (cons_token Colon
      (cons_token (TString (type_name (type t))) (cons_token Comma
      (cons_token (TString (ascii ''date'')) (cons_token Colon
      (cons_token (TString (date t)) (cons_token RBrace (lex rest)))))))))))))))))))))))))"
    by (simp add: tx_json_def n(1) lex_punctuation lex_string n(3))
  then show ?thesis
    by (cases "lex rest") (simp_all add: cons_token_def tx_tokens_def)
qed


lemma object_of_tx:
  "object_of [(ascii ''id'', a), (ascii ''description'', b), (ascii ''amount'', c),
      (ascii ''category'', d), (ascii ''type'', e), (ascii ''date'', f)] =
   JObject [(ascii ''id'', a), (ascii ''description'', b), (ascii ''amount'', c),
      (ascii ''category'', d), (ascii ''type'', e), (ascii ''date'', f)]"
  by (simp add: object_of_def define_member_def own_order_def is_array_index_def ascii_def
      is_digit_def)

lemma parse_tx:
  assumes "valid_amount (amount t)"
  shows "parse_value (tx_tokens t @ ts) = Some (tx_json t, ts)"
  using Number_toString_valid(2) [OF assms, symmetric]
  by (simp add: tx_tokens_def tx_json_def object_of_tx)

lemma tx_tokens_head: "tx_tokens t @ ts = LBrace # tl (tx_tokens t) @ ts"
  by (simp add: tx_tokens_def)

lemma length_tx_tokens: "length (tx_tokens t) = 25"
  by (simp add: tx_tokens_def)

lemma lex_elements:
  assumes "\<forall>t\<in>set txs. valid_amount (amount t)" "txs \<noteq> []"
  shows "lex (join_comma (stringify_elements (map tx_json txs)) @ rest) =
     map_option ((@) (join_tokens (map tx_tokens txs))) (lex rest)"
  using assms
proof (induction txs rule: induct_list012)
  case 1
  then show ?case by simp
next
  case (2 t)
  then show ?case by (simp add: lex_tx)
next
  case (3 t u us)
  then have "lex (join_comma (stringify_elements (map tx_json (u # us))) @ rest) =
      map_option ((@) (join_tokens (map tx_tokens (u # us)))) (lex rest)"
    by simp
  with "3.prems" show ?case
    by (cases "lex rest") (simp_all add: lex_tx lex_punctuation cons_token_def)
qed

lemma parse_elements_tx:
  assumes "\<forall>t\<in>set txs. valid_amount (amount t)" "txs \<noteq> []"
  shows "parse_elements (join_tokens (map tx_tokens txs) @ RBracket # ts) =
     Some (map tx_json txs, ts)"
  using assms
proof (induction txs rule: induct_list012)
  case 1
  then show ?case by simp
next
  case (2 t)
  then have p: "parse_value (tx_tokens t @ RBracket # ts) = Some (tx_json t, RBracket # ts)"
    by (simp add: parse_tx)
  show ?case
    by (subst parse_elements.simps) (simp add: p length_tx_tokens)
next
  case (3 t u us)
  then have ih: "parse_elements (join_tokens (map tx_tokens (u # us)) @ RBracket # ts) =
      Some (map tx_json (u # us), ts)"
    by simp
  from "3.prems" have p: "parse_value
       (tx_tokens t @ Comma # join_tokens (map tx_tokens (u # us)) @ RBracket # ts) =
      Some (tx_json t, Comma # join_tokens (map tx_tokens (u # us)) @ RBracket # ts)"
    by (simp add: parse_tx)
  have "parse_elements
       (tx_tokens t @ Comma # join_tokens (map tx_tokens (u # us)) @ RBracket # ts) =
      Some (tx_json t # map tx_json (u # us), ts)"
    using p ih by (subst parse_elements.simps) (simp add: length_tx_tokens)
  then show ?case by simp
qed

lemma parse_value_array:
  assumes "ts = LBrace # r"
  shows "parse_value (LBracket # ts) =
     (case parse_elements ts of None \<Rightarrow> None | Some (vs, r') \<Rightarrow> Some (JArray vs, r'))"
  by (simp add: assms)

lemma JSON_roundtrip:
  assumes "\<forall>t\<in>set txs. valid_amount (amount t)"
  shows "JSON_parse (JSON_stringify (JArray (map tx_json txs))) = Inr (JArray (map tx_json txs))"
proof (cases txs)
  case Nil
  then show ?thesis
    by (simp add: JSON_parse_def lex_punctuation lex.simps cons_token_def)
next
  case (Cons t us)
  then have ne: "txs \<noteq> []" by simp
  have l: "lex (JSON_stringify (JArray (map tx_json txs))) =
      Some (LBracket # join_tokens (map tx_tokens txs) @ [RBracket])"
    using lex_elements [OF assms ne, of "[0x5D]"]
    by (simp add: lex_punctuation lex.simps cons_token_def)
  have hd: "join_tokens (map tx_tokens txs) @ [RBracket] =
      LBrace # tl (join_tokens (map tx_tokens txs) @ [RBracket])"
    using Cons by (cases us) (simp_all add: tx_tokens_def)
  have "parse_value (LBracket # join_tokens (map tx_tokens txs) @ [RBracket]) =
      Some (JArray (map tx_json txs), [])"
    using parse_elements_tx [OF assms ne, of "[]"] by (simp add: parse_value_array [OF hd])
  with l show ?thesis by (simp add: JSON_parse_def)
qed

section \<open>Persistence\<close>

lemma type_name_inject: "type_name a = type_name b \<Longrightarrow> a = b"
  by (cases a; cases b) (simp_all add: type_name_def ascii_def)

lemma tx_json_inject: "tx_json t = tx_json u \<Longrightarrow> t = u"
  by (cases t; cases u) (auto simp: tx_json_def dest: type_name_inject)

lemma map_tx_json_inject: "map tx_json txs' = map tx_json txs \<Longrightarrow> txs' = txs"
proof (induction txs' arbitrary: txs)
  case Nil
  then show ?case by simp
next
  case (Cons t ts)
  then show ?case by (cases txs) (auto dest: tx_json_inject)
qed

lemma stringify_array_not_empty: "JSON_stringify (JArray vs) \<noteq> []"
  by simp

lemma getItem_setItem:
  "setItem k v st = Inr st' \<Longrightarrow> getItem k st' = Inr (Some v)"
  by (auto simp: setItem_def getItem_def Let_def split: if_splits)

text \<open>
  C4.  For a list of records with valid amounts, a \<open>save\<close> that succeeds followed by
  \<open>load\<close> returns the array of these records: the same records in the same order, each
  with the same six field values (no other list of records has this array as its
  value).
\<close>

theorem load_save_roundtrip:
  assumes "\<forall>t\<in>set txs. valid_amount (amount t)" and "save txs st = Inr st'"
  shows "load st' = Inr (JArray (map tx_json txs)) \<and>
         (\<forall>txs'. JArray (map tx_json txs') = JArray (map tx_json txs) \<longrightarrow> txs' = txs)"
proof
  have "getItem STORAGE_KEY st' = Inr (Some (JSON_stringify (JArray (map tx_json txs))))"
    using assms(2) unfolding save_def by (rule getItem_setItem)
  then show "load st' = Inr (JArray (map tx_json txs))"
    using JSON_roundtrip [OF assms(1)] stringify_array_not_empty [of "map tx_json txs"]
    by (simp add: load_def load_try_def del: JSON_stringify.simps)
  show "\<forall>txs'. JArray (map tx_json txs') = JArray (map tx_json txs) \<longrightarrow> txs' = txs"
    by (auto dest: map_tx_json_inject)
qed

text \<open>
  C6 (as amended).  \<open>load\<close> never throws.  It returns the empty list when the storage
  cannot be read, when nothing is stored under the key, when the stored text is empty
  and when the stored text is not JSON.  For any other stored text it returns the value
  that the text denotes, whatever its shape.
\<close>

theorem load_never_throws:
  "(\<exists>v. load st = Inr v) \<and>
   ((\<exists>e. getItem STORAGE_KEY st = Inl e) \<or> getItem STORAGE_KEY st = Inr None \<or>
    getItem STORAGE_KEY st = Inr (Some []) \<longrightarrow> load st = Inr (JArray [])) \<and>
   (getItem STORAGE_KEY st = Inr (Some raw) \<and> JSON_parse raw = Inl e \<longrightarrow>
      load st = Inr (JArray [])) \<and>
   (getItem STORAGE_KEY st = Inr (Some raw) \<and> raw \<noteq> [] \<and> JSON_parse raw = Inr v \<longrightarrow>
      load st = Inr v)"
  by (auto simp: load_def load_try_def split: sum.splits option.splits)

lemma parse_null: "JSON_parse (ascii ''null'') = Inr JNull"
  by code_simp

lemma parse_truncated: "JSON_parse (ascii ''[{'') = Inl SyntaxError"
  by code_simp

lemma STORAGE_KEY_lookup: "map_of [(STORAGE_KEY, v)] STORAGE_KEY = Some v"
  by simp

text \<open>
  C6 as stated fails: when the stored text is \<open>null\<close>, \<open>load\<close> returns \<open>null\<close>, which is
  not a sequence.
\<close>

theorem load_returns_null:
  "getItem STORAGE_KEY null_storage = Inr (Some (ascii ''null'')) \<and>
   load null_storage = Inr JNull \<and> \<not> is_array JNull"
  by (simp add: null_storage_def empty_storage_def getItem_def load_def load_try_def parse_null
      is_array_def)
     (simp add: ascii_def)

theorem load_never_throws_witness:
  "getItem STORAGE_KEY empty_storage = Inr None \<and> load empty_storage = Inr (JArray []) \<and>
   getItem STORAGE_KEY denied_storage = Inl SecurityError \<and>
   load denied_storage = Inr (JArray []) \<and>
   getItem STORAGE_KEY truncated_storage = Inr (Some (ascii ''[{'')) \<and>
   JSON_parse (ascii ''[{'') = Inl SyntaxError \<and>
   load truncated_storage = Inr (JArray []) \<and>
   getItem STORAGE_KEY null_storage = Inr (Some (ascii ''null'')) \<and>
   ascii ''null'' \<noteq> [] \<and> JSON_parse (ascii ''null'') = Inr JNull \<and>
   load null_storage = Inr JNull"
proof -
  have g: "getItem STORAGE_KEY empty_storage = Inr None"
    "getItem STORAGE_KEY denied_storage = Inl SecurityError"
    "getItem STORAGE_KEY truncated_storage = Inr (Some (ascii ''[{''))"
    "getItem STORAGE_KEY null_storage = Inr (Some (ascii ''null''))"
    by (simp_all add: getItem_def empty_storage_def denied_storage_def truncated_storage_def
        null_storage_def)
  have ne: "ascii ''null'' \<noteq> []" by (simp add: ascii_def)
  show ?thesis
    using load_never_throws [of empty_storage "[]" SyntaxError JNull]
      load_never_throws [of denied_storage "[]" SyntaxError JNull]
      load_never_throws [of truncated_storage "ascii ''[{''" SyntaxError JNull]
      load_never_throws [of null_storage "ascii ''null''" SyntaxError JNull]
    by (simp add: g ne parse_null parse_truncated)
qed

lemma valid_amount_samples: "valid_amount (Fin 1000)" "valid_amount (Fin (9 / 2))"
proof -
  have "Fin 1000 = Fin (of_nat 1000 * pow10 0)" by (simp add: pow10_def)
  then show "valid_amount (Fin 1000)" unfolding valid_amount_def by (intro exI [of _ 1000] exI [of _ 0]) simp
  have "Fin (9 / 2) = Fin (of_nat 45 * pow10 (- 1))" by (simp add: pow10_def)
  then show "valid_amount (Fin (9 / 2))"
    unfolding valid_amount_def by (intro exI [of _ 45] exI [of _ "- 1"]) simp
qed

lemma save_samples:
  "save [paycheck, coffee] empty_storage =
     Inr (empty_storage\<lparr>items :=
       [(STORAGE_KEY, JSON_stringify (JArray (map tx_json [paycheck, coffee])))]\<rparr>)"
  by code_simp

theorem load_save_roundtrip_witness:
  "valid_amount (amount paycheck) \<and> valid_amount (amount coffee) \<and>
   save [paycheck, coffee] empty_storage =
     Inr (empty_storage\<lparr>items :=
       [(STORAGE_KEY, JSON_stringify (JArray (map tx_json [paycheck, coffee])))]\<rparr>) \<and>
   load (empty_storage\<lparr>items :=
       [(STORAGE_KEY, JSON_stringify (JArray (map tx_json [paycheck, coffee])))]\<rparr>) =
     Inr (JArray [tx_json paycheck, tx_json coffee])"
proof -
  have v: "valid_amount (amount paycheck)" "valid_amount (amount coffee)"
    by (simp_all add: paycheck_def coffee_def valid_amount_samples)
  then have "\<forall>t\<in>set [paycheck, coffee]. valid_amount (amount t)" by simp
  from load_save_roundtrip [OF this save_samples] v save_samples show ?thesis
    by (simp del: JSON_stringify.simps)
qed

end
